theory Spec2Isabelle
  imports Main "HOL-Library.Sublist"
begin

section \<open>Errors\<close>

text \<open>
  Go errors are values. \<open>New\<close> stands for \<^verbatim>\<open>errors.New\<close> and \<^verbatim>\<open>fmt.Errorf\<close>,
  \<open>Wrap e msg\<close> for \<^verbatim>\<open>errors.Wrap(e, msg)\<close> of github.com/pkg/errors, which keeps the
  wrapped error as its cause. \<open>ErrorConfigurationChanged\<close> is the package variable of the
  runner: it is compared by identity, so it is a constructor of its own.
\<close>

datatype error = ErrorConfigurationChanged | New string | Wrap error string

fun Cause :: "error \<Rightarrow> error" where
  "Cause (Wrap e msg) = Cause e"
| "Cause ErrorConfigurationChanged = ErrorConfigurationChanged"
| "Cause (New msg) = New msg"

fun Error :: "error \<Rightarrow> string" where
  "Error (Wrap e msg) = msg @ '': '' @ Error e"
| "Error ErrorConfigurationChanged = ''configuration changed''"
| "Error (New msg) = msg"

section \<open>Build results and their merge (runner)\<close>

text \<open>
  \<^verbatim>\<open>v1alpha3.Artifact\<close>: an artifact of the configuration, with its sync patterns. The
  descriptor of its type (docker or bazel) only serves to list its dependencies, which the
  file system decides; it is left out.
\<close>

record Artifact =
  ImageName :: string
  Workspace :: string
  Sync :: "string list"

text \<open>\<^verbatim>\<open>build.Artifact\<close>: the result of building one image.\<close>

record BuildArtifact =
  ImageName :: string
  Tag :: string

text \<open>
  \<^verbatim>\<open>mergeWithPreviousBuilds\<close>: the new builds, followed by every previous build whose
  image name was not rebuilt. The Go map \<open>updatedBuilds\<close> is the set of rebuilt names.
\<close>

definition updatedBuilds :: "BuildArtifact list \<Rightarrow> string \<Rightarrow> bool" where
  "updatedBuilds blds = fold (\<lambda>b m. m(ImageName b := True)) blds (\<lambda>_. False)"

definition mergeWithPreviousBuilds :: "BuildArtifact list \<Rightarrow> BuildArtifact list \<Rightarrow> BuildArtifact list" where
  "mergeWithPreviousBuilds blds previous =
     fold (\<lambda>b merged. if \<not> updatedBuilds blds (ImageName b) then merged @ [b] else merged)
       previous ([] @ blds)"

section \<open>File changes and the sync predicate (runner)\<close>

record WatchEvents =
  Added :: "string list"
  Modified :: "string list"
  Deleted :: "string list"

text \<open>
  Modelled from the spec: \<^verbatim>\<open>WatchEvents.HasChanged\<close> of the watch package, which is not
  among the sources. The spec calls an event changed when its diff is non-empty.
\<close>

definition HasChanged :: "WatchEvents \<Rightarrow> bool" where
  "HasChanged e = (Added e \<noteq> [] \<or> Modified e \<noteq> [] \<or> Deleted e \<noteq> [])"

text \<open>
  \<^verbatim>\<open>filepath.Match(pattern, name)\<close> belongs to the Go library; it is a parameter \<open>fm\<close>
  returning the pair \<open>(matched, err)\<close>.
\<close>

type_synonym matcher = "string \<Rightarrow> string \<Rightarrow> bool \<times> error option"

text \<open>The inner loop of \<^verbatim>\<open>match\<close> over the patterns, for one file: \<open>Some r\<close> when the loop
  returns \<open>r\<close> from the function, \<open>None\<close> when it runs to its end.\<close>

fun match_patterns :: "matcher \<Rightarrow> string list \<Rightarrow> string \<Rightarrow> (bool \<times> error option) option" where
  "match_patterns fm [] f = None"
| "match_patterns fm (p # ps) f =
     (case fm p f of
        (m, Some err) \<Rightarrow> Some (False, Some (Wrap err ''pattern error''))
      | (m, None) \<Rightarrow> if \<not> m then Some (False, None) else match_patterns fm ps f)"

fun match :: "matcher \<Rightarrow> string list \<Rightarrow> string list \<Rightarrow> bool \<times> error option" where
  "match fm patterns [] = (True, None)"
| "match fm patterns (f # fs) =
     (case match_patterns fm patterns f of
        Some r \<Rightarrow> r
      | None \<Rightarrow> match fm patterns fs)"

definition shouldSync :: "matcher \<Rightarrow> string list \<Rightarrow> WatchEvents \<Rightarrow> bool \<times> error option" where
  "shouldSync fm syncPatterns e =
     (if \<not> HasChanged e then (False, None)
      else
        let copyFiles = Added e @ Modified e in
        (case match fm syncPatterns copyFiles of
           (isCopySyncable, Some err) \<Rightarrow> (False, Some (Wrap err ''checking sync pattern''))
         | (isCopySyncable, None) \<Rightarrow>
             if \<not> isCopySyncable then (False, None)
             else
               let isDeleteSyncable = fst (match fm syncPatterns (Deleted e)) in
               if \<not> isDeleteSyncable then (False, None) else (True, None)))"

section \<open>The manifest transformer (deployer)\<close>

text \<open>
  \<^verbatim>\<open>yaml.Unmarshal\<close> into \<^verbatim>\<open>map[interface{}]interface{}\<close> yields a generic tree: scalars,
  sequences (\<^verbatim>\<open>[]interface{}\<close>) and mappings whose keys are themselves values. A mapping is
  an association list, traversed in list order (Go ranges over a map in an unspecified order;
  each entry is treated on its own). \<open>YOther\<close> holds any other scalar (float, timestamp) by
  its text.
\<close>

datatype yaml = YStr string | YInt int | YBool bool | YNull | YOther string
  | YSeq "yaml list" | YMap "(yaml \<times> yaml) list"

text \<open>The two fields of \<^verbatim>\<open>docker.ImageReference\<close> that the transformer reads.\<close>

record ImageReference =
  BaseName :: string
  FullyQualified :: bool

record replacement =
  tag :: string
  found :: bool

datatype level = Warn | Info | Debug

type_synonym logs = "(level \<times> string) list"
type_synonym replacements = "string \<rightharpoonup> replacement"

text \<open>
  \<^verbatim>\<open>docker.ParseReference\<close> is not among the sources; the transformer takes it as the
  parameter \<open>pr\<close>, returning the error or the parsed reference.
\<close>

type_synonym parser = "string \<Rightarrow> error + ImageReference"

text \<open>
  The body of the loop of \<^verbatim>\<open>recursiveReplaceImage\<close> for an \<open>image\<close> key whose value is the
  string \<open>img\<close>: the new value of the entry, the replacement table and the log.
\<close>

definition replace_image_value :: "parser \<Rightarrow> string \<Rightarrow> replacements \<times> logs \<Rightarrow> yaml \<times> replacements \<times> logs" where
  "replace_image_value pr img s =
     (case pr img of
        Inl err \<Rightarrow> (YStr img, fst s, snd s @ [(Warn, ''Couldn't parse image: '' @ img)])
      | Inr parsed \<Rightarrow>
          if FullyQualified parsed then
            (YStr img, fst s, snd s @ [(Info, ''Not replacing fully qualified image: '' @ img @ '' (see #565)'')])
          else
            (case fst s (BaseName parsed) of
               Some r \<Rightarrow> (YStr (tag r), (fst s)(BaseName parsed \<mapsto> r\<lparr>found := True\<rparr>), snd s)
             | None \<Rightarrow> (YStr img, s)))"

text \<open>The run-time panic of an unchecked type assertion \<^verbatim>\<open>x.(string)\<close> on a non-string.\<close>

definition panic_conversion :: string where
  "panic_conversion = ''interface conversion: interface {} is not string''"

text \<open>
  \<^verbatim>\<open>recursiveReplaceImage\<close> mutates the tree in place; the model returns the new tree with
  the replacement table and the log, or \<open>Inl\<close> the panic message. \<open>replace_seq\<close> is its loop
  over a sequence, \<open>replace_map\<close> its loop over the entries of a mapping.
\<close>

fun recursiveReplaceImage :: "parser \<Rightarrow> yaml \<Rightarrow> replacements \<times> logs \<Rightarrow> string + yaml \<times> replacements \<times> logs"
and replace_seq :: "parser \<Rightarrow> yaml list \<Rightarrow> replacements \<times> logs \<Rightarrow> string + yaml list \<times> replacements \<times> logs"
and replace_map :: "parser \<Rightarrow> (yaml \<times> yaml) list \<Rightarrow> replacements \<times> logs \<Rightarrow> string + (yaml \<times> yaml) list \<times> replacements \<times> logs"
where
  "recursiveReplaceImage pr (YSeq t) s =
     (case replace_seq pr t s of Inl p \<Rightarrow> Inl p | Inr (t', s') \<Rightarrow> Inr (YSeq t', s'))"
| "recursiveReplaceImage pr (YMap t) s =
     (case replace_map pr t s of Inl p \<Rightarrow> Inl p | Inr (t', s') \<Rightarrow> Inr (YMap t', s'))"
| "recursiveReplaceImage pr (YStr x) s = Inr (YStr x, s)"
| "recursiveReplaceImage pr (YInt x) s = Inr (YInt x, s)"
| "recursiveReplaceImage pr (YBool x) s = Inr (YBool x, s)"
| "recursiveReplaceImage pr YNull s = Inr (YNull, s)"
| "recursiveReplaceImage pr (YOther x) s = Inr (YOther x, s)"
| "replace_seq pr [] s = Inr ([], s)"
| "replace_seq pr (v # vs) s =
     (case recursiveReplaceImage pr v s of
        Inl p \<Rightarrow> Inl p
      | Inr (v', s') \<Rightarrow>
          (case replace_seq pr vs s' of Inl p \<Rightarrow> Inl p | Inr (vs', s'') \<Rightarrow> Inr (v' # vs', s'')))"
| "replace_map pr [] s = Inr ([], s)"
| "replace_map pr ((k, v) # kvs) s =
     (case k of
        YStr ks \<Rightarrow>
          (if ks \<noteq> ''image'' then
             (case recursiveReplaceImage pr v s of
                Inl p \<Rightarrow> Inl p
              | Inr (v', s') \<Rightarrow>
                  (case replace_map pr kvs s' of
                     Inl p \<Rightarrow> Inl p
                   | Inr (kvs', s'') \<Rightarrow> Inr ((k, v') # kvs', s'')))
           else
             (case v of
                YStr img \<Rightarrow>
                  (case replace_image_value pr img s of
                     (v', s') \<Rightarrow>
                       (case replace_map pr kvs s' of
                          Inl p \<Rightarrow> Inl p
                        | Inr (kvs', s'') \<Rightarrow> Inr ((k, v') # kvs', s'')))
              | _ \<Rightarrow> Inl panic_conversion))
      | _ \<Rightarrow> Inl panic_conversion)"

text \<open>
  The YAML library is a parameter: \<open>Unmarshal\<close> reads the bytes of one document into the
  entries of a mapping, \<open>Marshal\<close> writes them back; both may return an error. \<open>'b\<close> is the
  type of the bytes.
\<close>

record 'b yaml_lib =
  Unmarshal :: "'b \<Rightarrow> error + (yaml \<times> yaml) list"
  Marshal :: "(yaml \<times> yaml) list \<Rightarrow> error + 'b"

datatype failure = Panic string | Failed error

fun entries :: "yaml \<Rightarrow> (yaml \<times> yaml) list" where
  "entries (YMap m) = m"
| "entries _ = []"

text \<open>The first loop of \<^verbatim>\<open>replaceImages\<close>: one fresh replacement per build, a later build of
  the same image name overwriting an earlier one.\<close>

definition new_replacements :: "BuildArtifact list \<Rightarrow> replacements" where
  "new_replacements blds =
     fold (\<lambda>b R. R(ImageName b \<mapsto> \<lparr>tag = Tag b, found = False\<rparr>)) blds Map.empty"

text \<open>The loop over the manifests; the state is the list of updated manifests, the
  replacement table and the log.\<close>

fun replace_manifests ::
  "'b yaml_lib \<Rightarrow> parser \<Rightarrow> 'b list \<Rightarrow> 'b list \<times> replacements \<times> logs \<Rightarrow> failure + 'b list \<times> replacements \<times> logs" where
  "replace_manifests y pr [] st = Inr st"
| "replace_manifests y pr (manifest # rest) (updatedManifests, s) =
     (case Unmarshal y manifest of
        Inl err \<Rightarrow> Inl (Failed (Wrap err ''reading kubernetes YAML''))
      | Inr m \<Rightarrow>
          if length m = 0 then replace_manifests y pr rest (updatedManifests, s)
          else
            (case recursiveReplaceImage pr (YMap m) s of
               Inl p \<Rightarrow> Inl (Panic p)
             | Inr (m', s') \<Rightarrow>
                 (case Marshal y (entries m') of
                    Inl err \<Rightarrow> Inl (Failed (Wrap err ''marshalling yaml''))
                  | Inr updatedManifest \<Rightarrow>
                      replace_manifests y pr rest (updatedManifests @ [updatedManifest], s'))))"

text \<open>The warnings of the last loop: one for each image name whose replacement was never
  used. (The debug line that prints the manifests is left out of the log.)\<close>

definition unused_warnings :: "BuildArtifact list \<Rightarrow> replacements \<Rightarrow> logs" where
  "unused_warnings blds R =
     map (\<lambda>name. (Warn, ''image ['' @ name @ ''] is not used by the deployment''))
       (filter (\<lambda>name. case R name of Some r \<Rightarrow> \<not> found r | None \<Rightarrow> False)
          (remdups (map ImageName blds)))"

definition replaceImages ::
  "'b yaml_lib \<Rightarrow> parser \<Rightarrow> 'b list \<Rightarrow> BuildArtifact list \<Rightarrow> failure + 'b list \<times> logs" where
  "replaceImages y pr l blds =
     (case replace_manifests y pr l ([], new_replacements blds, []) of
        Inl f \<Rightarrow> Inl f
      | Inr (updatedManifests, R, lg) \<Rightarrow> Inr (updatedManifests, lg @ unused_warnings blds R))"

section \<open>Reading the transformer's result\<close>

text \<open>
  The definitions of this section are not in the source: they name what the properties of
  the transformer speak about. \<open>tags R\<close> is the replacement table without its \<open>found\<close>
  marks; \<open>rewrite_image\<close> is the new text of one \<open>image\<close> value.
\<close>

definition tags :: "replacements \<Rightarrow> string \<rightharpoonup> string" where
  "tags R = map_option tag \<circ> R"

definition rewrite_image :: "parser \<Rightarrow> (string \<rightharpoonup> string) \<Rightarrow> string \<Rightarrow> string" where
  "rewrite_image pr T img =
     (case pr img of
        Inl err \<Rightarrow> img
      | Inr parsed \<Rightarrow>
          if FullyQualified parsed then img
          else (case T (BaseName parsed) of Some t \<Rightarrow> t | None \<Rightarrow> img))"

fun rewrite_value :: "parser \<Rightarrow> (string \<rightharpoonup> string) \<Rightarrow> yaml \<Rightarrow> yaml" where
  "rewrite_value pr T (YStr img) = YStr (rewrite_image pr T img)"
| "rewrite_value pr T v = v"

text \<open>
  \<open>image_values t\<close> lists, in document order, every value that stands under an \<open>image\<close> key
  at any depth of \<open>t\<close>; \<open>skeleton t\<close> is \<open>t\<close> with each of these values blanked, so
  two trees with the same skeleton differ in their \<open>image\<close> values only.
\<close>

fun image_values :: "yaml \<Rightarrow> yaml list"
and image_values_seq :: "yaml list \<Rightarrow> yaml list"
and image_values_map :: "(yaml \<times> yaml) list \<Rightarrow> yaml list" where
  "image_values (YSeq vs) = image_values_seq vs"
| "image_values (YMap kvs) = image_values_map kvs"
| "image_values (YStr x) = []"
| "image_values (YInt x) = []"
| "image_values (YBool x) = []"
| "image_values YNull = []"
| "image_values (YOther x) = []"
| "image_values_seq [] = []"
| "image_values_seq (v # vs) = image_values v @ image_values_seq vs"
| "image_values_map [] = []"
| "image_values_map ((k, v) # kvs) =
     (if k = YStr ''image'' then [v] else []) @ image_values v @ image_values_map kvs"

fun skeleton :: "yaml \<Rightarrow> yaml"
and skeleton_seq :: "yaml list \<Rightarrow> yaml list"
and skeleton_map :: "(yaml \<times> yaml) list \<Rightarrow> (yaml \<times> yaml) list" where
  "skeleton (YSeq vs) = YSeq (skeleton_seq vs)"
| "skeleton (YMap kvs) = YMap (skeleton_map kvs)"
| "skeleton (YStr x) = YStr x"
| "skeleton (YInt x) = YInt x"
| "skeleton (YBool x) = YBool x"
| "skeleton YNull = YNull"
| "skeleton (YOther x) = YOther x"
| "skeleton_seq [] = []"
| "skeleton_seq (v # vs) = skeleton v # skeleton_seq vs"
| "skeleton_map [] = []"
| "skeleton_map ((k, v) # kvs) =
     (k, if k = YStr ''image'' then YNull else skeleton v) # skeleton_map kvs"

text \<open>
  \<open>shaped t\<close>: every key of every mapping of \<open>t\<close> is a string and every value under an
  \<open>image\<close> key is a string.
\<close>

fun shaped :: "yaml \<Rightarrow> bool"
and shaped_seq :: "yaml list \<Rightarrow> bool"
and shaped_map :: "(yaml \<times> yaml) list \<Rightarrow> bool" where
  "shaped (YSeq vs) = shaped_seq vs"
| "shaped (YMap kvs) = shaped_map kvs"
| "shaped (YStr x) = True"
| "shaped (YInt x) = True"
| "shaped (YBool x) = True"
| "shaped YNull = True"
| "shaped (YOther x) = True"
| "shaped_seq [] = True"
| "shaped_seq (v # vs) = (shaped v \<and> shaped_seq vs)"
| "shaped_map [] = True"
| "shaped_map ((k, v) # kvs) =
     ((case k of
         YStr ks \<Rightarrow> if ks = ''image'' then (case v of YStr img \<Rightarrow> True | _ \<Rightarrow> False) else shaped v
       | _ \<Rightarrow> False) \<and> shaped_map kvs)"

text \<open>
  \<open>fixed_tags pr T\<close>: rewriting a tag of the table \<open>T\<close> gives the tag back (it does not
  parse, or is fully qualified, or its base name has no entry, or the entry is the tag itself).
\<close>

definition fixed_tags :: "parser \<Rightarrow> (string \<rightharpoonup> string) \<Rightarrow> bool" where
  "fixed_tags pr T = (\<forall>t\<in>ran T. rewrite_image pr T t = t)"

text \<open>The table of tags that \<^verbatim>\<open>replaceImages\<close> builds from the build results.\<close>

definition build_tags :: "BuildArtifact list \<Rightarrow> string \<rightharpoonup> string" where
  "build_tags blds = tags (new_replacements blds)"

text \<open>The non-empty mappings that the documents of a manifest list denote: the ones that
  \<^verbatim>\<open>replaceImages\<close> walks and writes back.\<close>

definition documents :: "'b yaml_lib \<Rightarrow> 'b list \<Rightarrow> (yaml \<times> yaml) list list" where
  "documents y l =
     concat (map (\<lambda>d. case Unmarshal y d of Inl e \<Rightarrow> [] | Inr m \<Rightarrow> if m = [] then [] else [m]) l)"

text \<open>
  The relation between an \<open>image\<close> value \<open>v\<close> of the input and the value \<open>v'\<close> at the same
  place of the output, in the words of the specification: a string that parses as a reference
  which is not fully qualified and whose base name has a build result becomes that result's tag
  (the last such result, should the list name an image twice); any other value stays.
\<close>

definition image_rewritten :: "parser \<Rightarrow> BuildArtifact list \<Rightarrow> yaml \<Rightarrow> yaml \<Rightarrow> bool" where
  "image_rewritten pr blds v v' =
     (case v of
        YStr img \<Rightarrow>
          (case pr img of
             Inl err \<Rightarrow> v' = v
           | Inr parsed \<Rightarrow>
               if \<not> FullyQualified parsed \<and> (\<exists>b\<in>set blds. ImageName b = BaseName parsed)
               then v' = YStr (Tag (last (filter (\<lambda>b. ImageName b = BaseName parsed) blds)))
               else v' = v)
      | _ \<Rightarrow> v' = v)"

text \<open>How an output document \<open>b\<close> relates to the mapping \<open>m\<close> of the input document it
  comes from: \<open>b\<close> is what the library wrote for a mapping \<open>m'\<close> that differs from \<open>m\<close> in its
  \<open>image\<close> values only, each rewritten as above.\<close>

definition document_rewritten ::
  "'b yaml_lib \<Rightarrow> parser \<Rightarrow> BuildArtifact list \<Rightarrow> (yaml \<times> yaml) list \<Rightarrow> 'b \<Rightarrow> bool" where
  "document_rewritten y pr blds m b =
     (\<exists>m'. Marshal y m' = Inr b \<and> skeleton (YMap m') = skeleton (YMap m)
        \<and> list_all2 (image_rewritten pr blds) (image_values (YMap m)) (image_values (YMap m')))"

text \<open>The nodes that are neither sequences nor mappings.\<close>

fun is_scalar :: "yaml \<Rightarrow> bool" where
  "is_scalar (YSeq vs) = False"
| "is_scalar (YMap kvs) = False"
| "is_scalar v = True"

subsection \<open>A library and a parser to run the transformer on\<close>

text \<open>
  To run the transformer on concrete manifests, a document is given by the node it denotes.
  Unmarshalling into a Go map succeeds for a mapping and for an empty document and fails for
  any other node, as \<^verbatim>\<open>yaml.v2\<close> does; marshalling a mapping gives its document.
\<close>

definition node_yaml :: "yaml yaml_lib" where
  "node_yaml =
     \<lparr>Unmarshal = (\<lambda>d. case d of
                       YMap m \<Rightarrow> Inr m
                     | YNull \<Rightarrow> Inr []
                     | _ \<Rightarrow> Inl (New ''yaml: unmarshal errors'')),
      Marshal = (\<lambda>m. Inr (YMap m))\<rparr>"

text \<open>
  Modelled from the spec: \<^verbatim>\<open>docker.ParseReference\<close>, which is not among the sources. The
  specification gives the parsed form (base name, optional tag, optional digest) and calls a
  reference fully qualified when it carries a digest or an explicit tag other than \<open>latest\<close>.
  The digest follows \<open>@\<close>; the tag follows the last \<open>:\<close> of the last path component. A
  reference without a name does not parse.
\<close>

definition ParseReference :: parser where
  "ParseReference img =
     (let name = takeWhile (\<lambda>c. c \<noteq> CHR ''@'') img;
          has_digest = (CHR ''@'' \<in> set img);
          has_tag = (CHR '':'' \<in> set (takeWhile (\<lambda>c. c \<noteq> CHR ''/'') (rev name)));
          tg = rev (takeWhile (\<lambda>c. c \<noteq> CHR '':'') (rev name));
          base = (if has_tag then rev (tl (dropWhile (\<lambda>c. c \<noteq> CHR '':'') (rev name))) else name)
      in if base = [] then Inl (New ''invalid reference format'')
         else Inr \<lparr>BaseName = base, FullyQualified = (has_digest \<or> (has_tag \<and> tg \<noteq> ''latest''))\<rparr>)"

section \<open>The dev loop (runner)\<close>

text \<open>
  Modelled from the spec: the type \<^verbatim>\<open>changes\<close> of the runner with its methods \<^verbatim>\<open>Add\<close> and
  \<^verbatim>\<open>reset\<close>, which are not among the sources. The specification describes the change
  accumulator: the dirty artifacts and two flags, reset to empty after each tick.
\<close>

record changes =
  dirtyArtifacts :: "Artifact list"
  needsRedeploy :: bool
  needsReload :: bool

definition Add :: "changes \<Rightarrow> Artifact \<Rightarrow> changes" where
  "Add c a = c\<lparr>dirtyArtifacts := dirtyArtifacts c @ [a]\<rparr>"

definition reset :: changes where
  "reset = \<lparr>dirtyArtifacts = [], needsRedeploy = False, needsReload = False\<rparr>"

text \<open>
  The calls that the runner makes to its plugins are recorded in a trace, in order. The state
  \<open>world\<close> of a dev session holds the fields that \<^verbatim>\<open>Dev\<close> and its closures write: the
  latest-known builds of the runner, the accumulator, the image list, the log aggregator
  (muted, stopped, started), the port forwarder (started), the lines printed to \<^verbatim>\<open>out\<close>, the
  lines logged, and the trace.
\<close>

datatype call =
    BuildCall "Artifact list"
  | DeployCall "BuildArtifact list"
  | CopyCall string "string list"
  | DeleteCall string "string list"

record world =
  builds :: "BuildArtifact list"
  changed :: changes
  imageList :: "string list"
  muted :: bool
  stopped :: bool
  logger_started :: bool
  forwarder_started :: bool
  printed :: "string list"
  logged :: logs
  calls :: "call list"

text \<open>The components that \<^verbatim>\<open>Dev\<close> registers with the watcher, each with its handler.\<close>

datatype component = ArtifactComponent Artifact | DeployerComponent | ConfigComponent

text \<open>
  The collaborators of the runner are parameters. \<open>Build n\<close> and \<open>Deploy n\<close> give the result
  of the call made after \<open>n\<close> earlier calls of the same plugin; the syncer copies and deletes
  files; \<open>stat0\<close> is the first listing of the files of a component, made when it is
  registered; \<open>loggerStart\<close> and \<open>forwarderStart\<close> start the two streams; \<open>Match\<close> is
  \<^verbatim>\<open>filepath.Match\<close>.
\<close>

record collaborators =
  Build :: "nat \<Rightarrow> Artifact list \<Rightarrow> error + BuildArtifact list"
  Deploy :: "nat \<Rightarrow> BuildArtifact list \<Rightarrow> error option"
  CopyFilesForImage :: "string \<Rightarrow> string list \<Rightarrow> error option"
  DeleteFilesForImage :: "string \<Rightarrow> string list \<Rightarrow> error option"
  stat0 :: "component \<Rightarrow> error option"
  loggerStart :: "error option"
  forwarderStart :: "error option"
  Match :: matcher

fun is_build :: "call \<Rightarrow> bool" where
  "is_build (BuildCall as) = True"
| "is_build c = False"

fun is_deploy :: "call \<Rightarrow> bool" where
  "is_deploy (DeployCall bs) = True"
| "is_deploy c = False"

text \<open>A call of a plugin: its result, and the world with the call appended to the trace.\<close>

definition call_Build :: "collaborators \<Rightarrow> Artifact list \<Rightarrow> world \<Rightarrow> (error + BuildArtifact list) \<times> world" where
  "call_Build p as w =
     (Build p (length (filter is_build (calls w))) as, w\<lparr>calls := calls w @ [BuildCall as]\<rparr>)"

definition call_Deploy :: "collaborators \<Rightarrow> BuildArtifact list \<Rightarrow> world \<Rightarrow> error option \<times> world" where
  "call_Deploy p bs w =
     (Deploy p (length (filter is_deploy (calls w))) bs, w\<lparr>calls := calls w @ [DeployCall bs]\<rparr>)"

definition call_Copy :: "collaborators \<Rightarrow> string \<Rightarrow> string list \<Rightarrow> world \<Rightarrow> error option \<times> world" where
  "call_Copy p img files w =
     (CopyFilesForImage p img files, w\<lparr>calls := calls w @ [CopyCall img files]\<rparr>)"

definition call_Delete :: "collaborators \<Rightarrow> string \<Rightarrow> string list \<Rightarrow> world \<Rightarrow> error option \<times> world" where
  "call_Delete p img files w =
     (DeleteFilesForImage p img files, w\<lparr>calls := calls w @ [DeleteCall img files]\<rparr>)"

definition Warnln :: "string \<Rightarrow> error \<Rightarrow> world \<Rightarrow> world" where
  "Warnln msg err w = w\<lparr>logged := logged w @ [(Warn, msg @ '' '' @ Error err)]\<rparr>"

definition Fprintln :: "string \<Rightarrow> world \<Rightarrow> world" where
  "Fprintln line w = w\<lparr>printed := printed w @ [line]\<rparr>"

text \<open>\<^verbatim>\<open>updateBuiltImages\<close>: the new tags join the image list, and the builds of the runner
  become the merge of the new builds with the previous ones.\<close>

definition updateBuiltImages :: "BuildArtifact list \<Rightarrow> world \<Rightarrow> world" where
  "updateBuiltImages bRes w =
     w\<lparr>imageList := fold (\<lambda>b images. images @ [Tag b]) bRes (imageList w),
       builds := mergeWithPreviousBuilds bRes (builds w)\<rparr>"

text \<open>
  The closure \<^verbatim>\<open>onChange\<close> of \<^verbatim>\<open>Dev\<close>, called once per tick that saw a change. \<open>on_tick\<close>
  is its \<^verbatim>\<open>switch\<close>: the returned error, the final value of \<open>hasError\<close> and the world. The
  deferred function runs last.
\<close>

definition on_tick :: "collaborators \<Rightarrow> world \<Rightarrow> error option \<times> bool \<times> world" where
  "on_tick p w =
     (if needsReload (changed w) then (Some ErrorConfigurationChanged, True, w\<lparr>stopped := True\<rparr>)
      else if length (dirtyArtifacts (changed w)) > 0 then
        (case call_Build p (dirtyArtifacts (changed w)) w of
           (Inl err, w1) \<Rightarrow> (None, True, Warnln ''Skipping Deploy due to build error:'' err w1)
         | (Inr bRes, w1) \<Rightarrow>
             (let w2 = updateBuiltImages bRes w1 in
              case call_Deploy p (builds w2) w2 of
                (Some err, w3) \<Rightarrow> (None, True, Warnln ''Skipping Deploy due to error:'' err w3)
              | (None, w3) \<Rightarrow> (None, False, w3)))
      else if needsRedeploy (changed w) then
        (case call_Deploy p (builds w) w of
           (Some err, w1) \<Rightarrow> (None, True, Warnln ''Skipping Deploy due to error:'' err w1)
         | (None, w1) \<Rightarrow> (None, False, w1))
      else (None, False, w))"

definition onChange :: "collaborators \<Rightarrow> world \<Rightarrow> error option \<times> world" where
  "onChange p w =
     (case on_tick p (w\<lparr>muted := True\<rparr>) of
        (res, hasError, w1) \<Rightarrow>
          (let w2 = Fprintln ''Watching for changes...'' (w1\<lparr>changed := reset\<rparr>) in
           (res, if \<not> hasError then w2\<lparr>muted := False\<rparr> else w2)))"

text \<open>The handler that \<^verbatim>\<open>Dev\<close> registers for an artifact, for the deployer and for the
  configuration file.\<close>

definition artifact_onChange :: "collaborators \<Rightarrow> Artifact \<Rightarrow> WatchEvents \<Rightarrow> world \<Rightarrow> error option \<times> world" where
  "artifact_onChange p artifact e w =
     (case shouldSync (Match p) (Sync artifact) e of
        (sync, Some err) \<Rightarrow> (Some (Wrap err ''checking sync files''), w)
      | (sync, None) \<Rightarrow>
          if sync then
            (case call_Copy p (Artifact.ImageName artifact) (Added e @ Modified e) w of
               (Some err, w1) \<Rightarrow> (Some (Wrap err ''copying files''), w1)
             | (None, w1) \<Rightarrow>
                 (case call_Delete p (Artifact.ImageName artifact) (Deleted e) w1 of
                    (Some err, w2) \<Rightarrow> (Some (Wrap err ''deleting files''), w2)
                  | (None, w2) \<Rightarrow> (None, Fprintln ''Synced files.'' w2)))
          else (None, w\<lparr>changed := Add (changed w) artifact\<rparr>))"

fun component_onChange :: "collaborators \<Rightarrow> component \<Rightarrow> WatchEvents \<Rightarrow> world \<Rightarrow> error option \<times> world" where
  "component_onChange p (ArtifactComponent artifact) e w = artifact_onChange p artifact e w"
| "component_onChange p DeployerComponent e w = (None, w\<lparr>changed := (changed w)\<lparr>needsRedeploy := True\<rparr>\<rparr>)"
| "component_onChange p ConfigComponent e w = (None, w\<lparr>changed := (changed w)\<lparr>needsReload := True\<rparr>\<rparr>)"

text \<open>
  The watcher. The file system is outside the model: a tick is given by what the watcher
  observes for each registered component, in registration order, namely the error of listing
  its files or the events since the previous tick. \<open>poll\<close> is the loop of one tick over the
  components: the error that ends \<^verbatim>\<open>Run\<close>, or the number of components that changed.
\<close>

type_synonym tick = "(error + WatchEvents) list"

fun poll :: "collaborators \<Rightarrow> (component \<times> (error + WatchEvents)) list \<Rightarrow> nat \<Rightarrow> world \<Rightarrow> error option \<times> nat \<times> world" where
  "poll p [] n w = (None, n, w)"
| "poll p ((c, Inl err) # rest) n w = (Some (Wrap err ''listing files''), n, w)"
| "poll p ((c, Inr e) # rest) n w =
     (if HasChanged e then
        (case component_onChange p c e w of
           (Some err, w1) \<Rightarrow> poll p rest (n + 1) (w1\<lparr>logged := logged w1 @ [(Warn, ''on change error: %s'')]\<rparr>)
         | (None, w1) \<Rightarrow> poll p rest (n + 1) w1)
      else poll p rest n w)"

text \<open>\<^verbatim>\<open>watchList.Run\<close> over the ticks that come before the context is cancelled; at the end
  of the list the context is done and \<^verbatim>\<open>Run\<close> returns \<^verbatim>\<open>nil\<close>.\<close>

fun Run :: "collaborators \<Rightarrow> component list \<Rightarrow> tick list \<Rightarrow> world \<Rightarrow> error option \<times> world" where
  "Run p comps [] w = (None, w)"
| "Run p comps (t # ticks) w =
     (case poll p (zip comps t) 0 w of
        (Some err, n, w1) \<Rightarrow> (Some err, w1)
      | (None, n, w1) \<Rightarrow>
          if n > 0 then
            (case onChange p w1 of
               (Some err, w2) \<Rightarrow> (Some (Wrap err ''calling final callback''), w2)
             | (None, w2) \<Rightarrow> Run p comps ticks w2)
          else Run p comps ticks w1)"

text \<open>The two options that \<^verbatim>\<open>Dev\<close> reads from \<^verbatim>\<open>config.SkaffoldOptions\<close>.\<close>

record SkaffoldOptions =
  Watch :: "string list"
  ConfigurationFile :: string

text \<open>\<^verbatim>\<open>shouldWatch\<close>, with \<^verbatim>\<open>strings.Contains\<close> as the sublist relation on strings.\<close>

definition shouldWatch :: "SkaffoldOptions \<Rightarrow> Artifact \<Rightarrow> bool" where
  "shouldWatch opts artifact =
     (if length (Watch opts) = 0 then True
      else list_ex (\<lambda>watchExpression. sublist watchExpression (Artifact.ImageName artifact))
             (Watch opts))"

text \<open>
  The registrations of \<^verbatim>\<open>Dev\<close>, in order: the watched artifacts, the deployer, the
  configuration file. \<^verbatim>\<open>Register\<close> lists the files of the component once and fails with
  the wrapped error of that listing; \<^verbatim>\<open>Dev\<close> wraps it again.
\<close>

fun register_artifacts :: "collaborators \<Rightarrow> SkaffoldOptions \<Rightarrow> Artifact list \<Rightarrow> component list \<Rightarrow> error + component list" where
  "register_artifacts p opts [] comps = Inr comps"
| "register_artifacts p opts (artifact # rest) comps =
     (if \<not> shouldWatch opts artifact then register_artifacts p opts rest comps
      else
        (case stat0 p (ArtifactComponent artifact) of
           Some err \<Rightarrow>
             Inl (Wrap (Wrap err ''listing files'')
                    (''watching files for artifact '' @ Artifact.ImageName artifact))
         | None \<Rightarrow> register_artifacts p opts rest (comps @ [ArtifactComponent artifact])))"

definition register_all :: "collaborators \<Rightarrow> SkaffoldOptions \<Rightarrow> Artifact list \<Rightarrow> error + component list" where
  "register_all p opts artifacts =
     (case register_artifacts p opts artifacts [] of
        Inl err \<Rightarrow> Inl err
      | Inr comps \<Rightarrow>
          (case stat0 p DeployerComponent of
             Some err \<Rightarrow> Inl (Wrap (Wrap err ''listing files'') ''watching files for deployer'')
           | None \<Rightarrow>
               (case stat0 p ConfigComponent of
                  Some err \<Rightarrow>
                    Inl (Wrap (Wrap err ''listing files'')
                           (''watching skaffold configuration '' @ ConfigurationFile opts))
                | None \<Rightarrow> Inr (comps @ [DeployerComponent, ConfigComponent]))))"

text \<open>
  \<^verbatim>\<open>Dev\<close>. The runner is given by its options and by the builds \<open>r_builds\<close> it holds on
  entry; the image list, the accumulator and the two streams are created by \<^verbatim>\<open>Dev\<close>, and
  the trace starts empty. \<open>ticks\<close> are the ticks of the watcher before the context is cancelled.
\<close>

definition new_world :: "BuildArtifact list \<Rightarrow> world" where
  "new_world r_builds =
     \<lparr>builds = r_builds, changed = reset, imageList = [], muted = False, stopped = False,
      logger_started = False, forwarder_started = False, printed = [], logged = [], calls = []\<rparr>"

definition Dev :: "collaborators \<Rightarrow> SkaffoldOptions \<Rightarrow> Artifact list \<Rightarrow> tick list \<Rightarrow> BuildArtifact list \<Rightarrow> error option \<times> world" where
  "Dev p opts artifacts ticks r_builds =
     (case register_all p opts artifacts of
        Inl err \<Rightarrow> (Some err, new_world r_builds)
      | Inr comps \<Rightarrow>
          (case call_Build p artifacts (new_world r_builds) of
             (Inl err, w1) \<Rightarrow> (Some (Wrap err ''exiting dev mode because the first build failed''), w1)
           | (Inr bRes, w1) \<Rightarrow>
               (let w2 = updateBuiltImages bRes w1 in
                case call_Deploy p (builds w2) w2 of
                  (Some err, w3) \<Rightarrow>
                    (Some (Wrap err ''exiting dev mode because the first deploy failed''), w3)
                | (None, w3) \<Rightarrow>
                    (case loggerStart p of
                       Some err \<Rightarrow> (Some (Wrap err ''starting logger''), w3)
                     | None \<Rightarrow>
                         (case forwarderStart p of
                            Some err \<Rightarrow>
                              (Some (Wrap err ''starting port-forwarder''), w3\<lparr>logger_started := True\<rparr>)
                          | None \<Rightarrow>
                              Run p comps ticks
                                (w3\<lparr>logger_started := True, forwarder_started := True\<rparr>))))))"

text \<open>
  Two kinds of tick, to state what the loop does. In a tick without reload every component is
  listed without error and the configuration file is seen unchanged; in a reload tick every
  component is listed without error and the configuration file is seen changed.
\<close>

definition listed :: "component list \<Rightarrow> tick \<Rightarrow> bool" where
  "listed comps t = (\<forall>(c, obs)\<in>set (zip comps t). \<exists>e. obs = Inr e)"

definition config_changed :: "component list \<Rightarrow> tick \<Rightarrow> bool" where
  "config_changed comps t = (\<exists>e. (ConfigComponent, Inr e) \<in> set (zip comps t) \<and> HasChanged e)"

definition no_reload :: "component list \<Rightarrow> tick \<Rightarrow> bool" where
  "no_reload comps t = (listed comps t \<and> \<not> config_changed comps t)"

text \<open>The build results as a table from image name to tag.\<close>

definition tag_table :: "BuildArtifact list \<Rightarrow> string \<rightharpoonup> string" where
  "tag_table blds = map_of (map (\<lambda>b. (ImageName b, Tag b)) blds)"

subsection \<open>Collaborators to run the dev loop on\<close>

text \<open>
  The test doubles of the runner's tests. \<^verbatim>\<open>TestBuilder\<close> holds a list of errors and returns
  them one per call, an entry \<^verbatim>\<open>nil\<close> giving no builds and no error; once the list is used
  up it builds every artifact, with an empty tag. \<^verbatim>\<open>TestDeployer\<close> returns its errors in the
  same way, and \<^verbatim>\<open>TestSyncer\<close> returns its two fixed errors.
\<close>

definition TestBuilder :: "error option list \<Rightarrow> nat \<Rightarrow> Artifact list \<Rightarrow> error + BuildArtifact list" where
  "TestBuilder errors n artifacts =
     (if n < length errors then (case errors ! n of Some err \<Rightarrow> Inl err | None \<Rightarrow> Inr [])
      else Inr (map (\<lambda>a. \<lparr>ImageName = Artifact.ImageName a, Tag = []\<rparr>) artifacts))"

definition TestDeployer :: "error option list \<Rightarrow> nat \<Rightarrow> BuildArtifact list \<Rightarrow> error option" where
  "TestDeployer errors n blds = (if n < length errors then errors ! n else None)"

text \<open>\<^verbatim>\<open>filepath.Match\<close> on patterns without metacharacters: such a pattern matches its own
  text and nothing else, and is never malformed.\<close>

definition literal_Match :: matcher where
  "literal_Match pattern name = (pattern = name, None)"

definition test_collaborators :: "error option list \<Rightarrow> error option list \<Rightarrow> collaborators" where
  "test_collaborators build_errors deploy_errors =
     \<lparr>Build = TestBuilder build_errors, Deploy = TestDeployer deploy_errors,
      CopyFilesForImage = (\<lambda>img files. None), DeleteFilesForImage = (\<lambda>img files. None),
      stat0 = (\<lambda>c. None), loggerStart = None, forwarderStart = None, Match = literal_Match\<rparr>"

section \<open>The port forwarder (kubernetes)\<close>

text \<open>
  \<^verbatim>\<open>strconv.Atoi\<close> and the verb \<^verbatim>\<open>%d\<close> of \<^verbatim>\<open>fmt.Sprintf\<close>, for the decimal numbers that
  the port forwarder reads and prints. \<open>Atoi\<close> accepts an optional sign followed by digits and
  rejects a number outside the range of the 64-bit \<^verbatim>\<open>int\<close>.
\<close>

definition digit_of :: "char \<Rightarrow> nat option" where
  "digit_of c = (if c \<in> set ''0123456789'' then Some (length (takeWhile (\<lambda>d. d \<noteq> c) ''0123456789'')) else None)"

fun decimal :: "string \<Rightarrow> nat \<Rightarrow> nat option" where
  "decimal [] acc = Some acc"
| "decimal (c # cs) acc =
     (case digit_of c of None \<Rightarrow> None | Some d \<Rightarrow> decimal cs (10 * acc + d))"

definition Atoi :: "string \<Rightarrow> error + int" where
  "Atoi s =
     (let body = (if s \<noteq> [] \<and> (hd s = CHR ''+'' \<or> hd s = CHR ''-'') then tl s else s);
          negative = (s \<noteq> [] \<and> hd s = CHR ''-'')
      in if body = [] then Inl (New ''strconv.Atoi: invalid syntax'')
         else
           (case decimal body 0 of
              None \<Rightarrow> Inl (New ''strconv.Atoi: invalid syntax'')
            | Some n \<Rightarrow>
                (let i = (if negative then - int n else int n) in
                 if i < - (2 ^ 63) \<or> 2 ^ 63 - 1 < i then Inl (New ''strconv.Atoi: value out of range'')
                 else Inr i)))"

function digits :: "nat \<Rightarrow> string" where
  "digits n = (if n < 10 then [''0123456789'' ! n] else digits (n div 10) @ [''0123456789'' ! (n mod 10)])"
  by pat_completeness auto
termination
  by (relation "measure id") auto

definition Sprintf_d :: "int \<Rightarrow> string" where
  "Sprintf_d i = (if i < 0 then CHR ''-'' # digits (nat (- i)) else digits (nat i))"

text \<open>The fields of a pod that the port forwarder reads. A port is the \<^verbatim>\<open>ContainerPort\<close>
  of the container's port, an \<^verbatim>\<open>int32\<close>; no arithmetic is done on it.\<close>

record Container =
  Name :: string
  Ports :: "int list"

datatype PodPhase = PodPending | PodRunning | PodSucceeded | PodFailed | PodUnknown

record Pod =
  Name :: string
  ResourceVersion :: string
  Phase :: PodPhase
  DeletionTimestamp :: "string option"
  Containers :: "Container list"

text \<open>
  \<^verbatim>\<open>portForwardEntry\<close>. The command \<^verbatim>\<open>cmd\<close> is \<^verbatim>\<open>nil\<close> until \<^verbatim>\<open>forward\<close> sets it; a set
  command is given by the handle of the process it runs.
\<close>

record portForwardEntry =
  resourceVersion :: int
  podName :: string
  containerName :: string
  port :: int
  cmd :: "nat option"

definition key :: "portForwardEntry \<Rightarrow> string" where
  "key p = containerName p @ ''-'' @ Sprintf_d (port p)"

text \<open>
  The state of the port forwarder and of the processes it starts: the table
  \<^verbatim>\<open>forwardedPods\<close> (a \<^verbatim>\<open>sync.Map\<close>, here an association list with one entry per key), the
  handles of the processes that are running, the number of processes started so far, the
  handles that were sent \<^verbatim>\<open>SIGTERM\<close>, and the lines written and logged.
\<close>

record forwarder =
  forwardedPods :: "(string \<times> portForwardEntry) list"
  running :: "nat list"
  started :: nat
  signalled :: "nat list"
  pf_output :: "string list"
  pf_logged :: logs

text \<open>\<^verbatim>\<open>sync.Map\<close>: \<open>Load\<close>, \<open>Store\<close> and \<^verbatim>\<open>Range\<close>, which stops as soon as the function it
  calls returns \<^verbatim>\<open>false\<close>.\<close>

definition Load :: "(string \<times> 'v) list \<Rightarrow> string \<Rightarrow> 'v option" where
  "Load m k = map_of m k"

fun Store :: "(string \<times> 'v) list \<Rightarrow> string \<Rightarrow> 'v \<Rightarrow> (string \<times> 'v) list" where
  "Store [] k v = [(k, v)]"
| "Store ((k', v') # m) k v = (if k' = k then (k, v) # m else (k', v') # Store m k v)"

fun Range_map :: "(string \<Rightarrow> 'v \<Rightarrow> 's \<Rightarrow> bool \<times> 's) \<Rightarrow> (string \<times> 'v) list \<Rightarrow> 's \<Rightarrow> 's" where
  "Range_map f [] s = s"
| "Range_map f ((k, v) # m) s =
     (case f k v s of (continue, s') \<Rightarrow> if continue then Range_map f m s' else s')"

text \<open>
  \<^verbatim>\<open>stop\<close>: \<^verbatim>\<open>SIGTERM\<close> to the process of the entry. Signalling a process that has already
  finished is an error; a running process that receives the signal terminates.
\<close>

definition stop :: "portForwardEntry \<Rightarrow> forwarder \<Rightarrow> error option \<times> forwarder" where
  "stop p fw =
     (case cmd p of
        None \<Rightarrow>
          (Some (New (''No port-forward command found for '' @ podName p @ ''/'' @ containerName p
                       @ '':'' @ Sprintf_d (port p))), fw)
      | Some pid \<Rightarrow>
          if pid \<in> set (running fw) then
            (None, fw\<lparr>running := removeAll pid (running fw), signalled := signalled fw @ [pid]\<rparr>)
          else
            (Some (Wrap (New ''os: process already finished'') ''terminating port-forward process''), fw))"

text \<open>
  \<^verbatim>\<open>forward\<close> stores the entry, then runs \<^verbatim>\<open>kubectl port-forward\<close> and waits for it. What
  the process does is outside the model: \<open>exits pid\<close> is \<open>None\<close> when the process keeps
  running, so that the call stays blocked in \<^verbatim>\<open>RunCmdOut\<close>, and \<open>Some r\<close> when it exits at once
  with the result \<open>r\<close>. The output of the command, which ends the message of the error, is
  left out.
\<close>

datatype outcome = Blocked | Returned "error option"

definition forward :: "(nat \<Rightarrow> error option option) \<Rightarrow> portForwardEntry \<Rightarrow> forwarder \<Rightarrow> outcome \<times> forwarder" where
  "forward exits p fw =
     (let portNumber = Sprintf_d (port p);
          pid = started fw;
          p1 = p\<lparr>cmd := Some pid\<rparr>;
          fw1 = fw\<lparr>pf_output := pf_output fw @
                      [''Port Forwarding '' @ podName p @ '' '' @ portNumber @ '' -> '' @ portNumber],
                   forwardedPods := Store (forwardedPods fw) (key p1) p1,
                   started := pid + 1,
                   running := running fw @ [pid]\<rparr>
      in case exits pid of
           None \<Rightarrow> (Blocked, fw1)
         | Some None \<Rightarrow> (Returned None, fw1\<lparr>running := removeAll pid (running fw1)\<rparr>)
         | Some (Some err) \<Rightarrow>
             (Returned (Some (Wrap err (''port forwarding pod: '' @ podName p @ '', port: '' @ portNumber))),
              fw1\<lparr>running := removeAll pid (running fw1)\<rparr>))"

text \<open>The loop of \<^verbatim>\<open>portForwardPod\<close> over the pairs of a container and one of its ports.\<close>

fun forward_ports ::
  "(nat \<Rightarrow> error option option) \<Rightarrow> Pod \<Rightarrow> int \<Rightarrow> (Container \<times> int) list \<Rightarrow> forwarder \<Rightarrow> outcome \<times> forwarder" where
  "forward_ports exits pod rv [] fw = (Returned None, fw)"
| "forward_ports exits pod rv ((c, prt) # rest) fw =
     (let entry = \<lparr>resourceVersion = rv, podName = Pod.Name pod, containerName = Container.Name c,
                   port = prt, cmd = None\<rparr>;
          stopped_prev =
            (case Load (forwardedPods fw) (key entry) of
               Some prevEntry \<Rightarrow>
                 if resourceVersion entry > resourceVersion prevEntry then stop prevEntry fw
                 else (None, fw)
             | None \<Rightarrow> (None, fw))
      in case stopped_prev of
           (Some err, fw1) \<Rightarrow> (Returned (Some (Wrap err ''terminating port-forward process'')), fw1)
         | (None, fw1) \<Rightarrow>
             (case forward exits entry fw1 of
                (Blocked, fw2) \<Rightarrow> (Blocked, fw2)
              | (Returned (Some err), fw2) \<Rightarrow> (Returned (Some (Wrap err ''port forwarding'')), fw2)
              | (Returned None, fw2) \<Rightarrow> forward_ports exits pod rv rest fw2))"

definition portForwardPod :: "(nat \<Rightarrow> error option option) \<Rightarrow> Pod \<Rightarrow> forwarder \<Rightarrow> outcome \<times> forwarder" where
  "portForwardPod exits pod fw =
     (case Atoi (ResourceVersion pod) of
        Inl err \<Rightarrow> (Returned (Some (Wrap err ''converting resource version to integer'')), fw)
      | Inr rv \<Rightarrow>
          forward_ports exits pod rv
            (concat (map (\<lambda>c. map (\<lambda>prt. (c, prt)) (Ports c)) (Containers pod))) fw)"

text \<open>\<^verbatim>\<open>cleanupPorts\<close>: the function given to \<^verbatim>\<open>Range\<close> stops the entry and returns
  \<^verbatim>\<open>false\<close>.\<close>

definition cleanupPorts :: "forwarder \<Rightarrow> forwarder" where
  "cleanupPorts fw =
     Range_map (\<lambda>k entry s.
              case stop entry s of
                (Some err, s1) \<Rightarrow>
                  (False, s1\<lparr>pf_logged := pf_logged s1 @ [(Warn, ''cleaning up port forwards'')]\<rparr>)
              | (None, s1) \<Rightarrow> (False, s1))
       (forwardedPods fw) fw"

text \<open>
  The goroutine of \<^verbatim>\<open>Start\<close>, over what its \<^verbatim>\<open>select\<close> receives in turn: the cancellation
  of the context, the closing of the watch channel, or an event. The goroutines that it starts
  for the pods are run here one after the other, each until it returns or blocks in
  \<^verbatim>\<open>forward\<close>. \<open>sel\<close> is \<^verbatim>\<open>podSelector.Select\<close>.
\<close>

datatype EventType = Added_event | Modified_event | Deleted_event | Error_event
datatype received = Done | Closed | Event EventType "Pod option"

fun Start :: "(Pod \<Rightarrow> bool) \<Rightarrow> (nat \<Rightarrow> error option option) \<Rightarrow> received list \<Rightarrow> forwarder \<Rightarrow> forwarder" where
  "Start sel exits [] fw = fw"
| "Start sel exits (Done # rest) fw = cleanupPorts fw"
| "Start sel exits (Closed # rest) fw = fw"
| "Start sel exits (Event ty obj # rest) fw =
     (if ty \<noteq> Modified_event then Start sel exits rest fw
      else
        (case obj of
           None \<Rightarrow> Start sel exits rest fw
         | Some pod \<Rightarrow>
             if sel pod \<and> Phase pod = PodRunning \<and> DeletionTimestamp pod = None then
               (case portForwardPod exits pod fw of
                  (Returned (Some err), fw1) \<Rightarrow>
                    Start sel exits rest
                      (fw1\<lparr>pf_logged := pf_logged fw1 @ [(Warn, ''port forwarding pod failed: '' @ Error err)]\<rparr>)
                | (r, fw1) \<Rightarrow> Start sel exits rest fw1)
             else Start sel exits rest fw))"

definition NewPortForwarder :: forwarder where
  "NewPortForwarder =
     \<lparr>forwardedPods = [], running = [], started = 0, signalled = [], pf_output = [], pf_logged = []\<rparr>"

section \<open>The post-deploy labeler (label)\<close>

text \<open>
  A Go map is a reference: the caller and the callee of \<^verbatim>\<open>ApplyLabelDeployResults\<close> hold the
  same map. The maps live in a store, from addresses to their contents; a value of type
  \<^verbatim>\<open>map[string]string\<close> is \<^verbatim>\<open>nil\<close> or the address of a map.
\<close>

type_synonym labels = "string \<rightharpoonup> string"
type_synonym store = "nat \<Rightarrow> labels"

text \<open>
  The runtime objects that \<^verbatim>\<open>updateRuntimeObject\<close> knows, by their Go type, and any other
  object. The labels of an object belong to the object: they are held by value (\<open>None\<close> is
  the \<^verbatim>\<open>nil\<close> map).
\<close>

datatype kind =
    core_v1_Pod | apps_v1_Deployment | apps_v1beta1_Deployment | apps_v1beta2_Deployment
  | extensions_v1beta1_Deployment | core_v1_Service | apps_v1_StatefulSet
  | apps_v1beta1_StatefulSet | apps_v1beta2_StatefulSet | extensions_v1beta1_DaemonSet
  | apps_v1_ReplicaSet | apps_v1beta2_ReplicaSet | other_Object

record ObjectMeta =
  Labels :: "labels option"
  Namespace :: string

record Object =
  Kind :: kind
  Meta :: ObjectMeta

text \<open>\<^verbatim>\<open>deploy.Artifact\<close>: a deployed object and the namespace it was deployed to.\<close>

record DeployArtifact =
  Obj :: Object
  Namespace :: string

text \<open>The calls of the Kubernetes client: \<^verbatim>\<open>Update\<close> for the deployments, \<^verbatim>\<open>UpdateStatus\<close>
  for the other known objects, on the interface of the namespace.\<close>

datatype client_call = Update string Object | UpdateStatus string Object

fun is_deployment :: "kind \<Rightarrow> bool" where
  "is_deployment apps_v1_Deployment = True"
| "is_deployment apps_v1beta1_Deployment = True"
| "is_deployment apps_v1beta2_Deployment = True"
| "is_deployment extensions_v1beta1_Deployment = True"
| "is_deployment k = False"

text \<open>
  The state that the labeler writes: the store of maps, the calls made to the client, the
  lines logged, and the number of times it slept. Its surroundings are parameters:
  \<open>Client\<close> is \<^verbatim>\<open>kubernetes.Client()\<close>, \<open>respond n\<close> is the error of the call made to the
  client after \<open>n\<close> earlier calls, and \<open>DefaultLabels\<close> is \<^verbatim>\<open>constants.Labels.DefaultLabels\<close>,
  which is not among the sources, with its entries in the order of the \<^verbatim>\<open>range\<close>.
\<close>

record labeler =
  maps :: store
  client_calls :: "client_call list"
  lb_logged :: logs
  slept :: nat

record cluster =
  Client :: "error option"
  respond :: "nat \<Rightarrow> error option"
  DefaultLabels :: "(string \<times> string) list"

definition addSkaffoldLabels :: "labels \<Rightarrow> ObjectMeta \<Rightarrow> ObjectMeta" where
  "addSkaffoldLabels lbls m =
     m\<lparr>Labels := Some ((case Labels m of None \<Rightarrow> Map.empty | Some ls \<Rightarrow> ls) ++ lbls)\<rparr>"

definition retrieveNamespace :: "string \<Rightarrow> ObjectMeta \<Rightarrow> string" where
  "retrieveNamespace ns m =
     (if ns \<noteq> [] then ns
      else if ObjectMeta.Namespace m \<noteq> [] then ObjectMeta.Namespace m
      else ''default'')"

text \<open>The first loop of \<^verbatim>\<open>updateRuntimeObject\<close>: each default label is assigned into the
  map \<open>labels\<close>. Assigning into the \<^verbatim>\<open>nil\<close> map panics.\<close>

fun insert_defaults :: "(string \<times> string) list \<Rightarrow> nat option \<Rightarrow> store \<Rightarrow> string + store" where
  "insert_defaults [] lbls h = Inr h"
| "insert_defaults ((k, v) # rest) None h = Inl ''assignment to entry in nil map''"
| "insert_defaults ((k, v) # rest) (Some a) h = insert_defaults rest (Some a) (h(a := (h a)(k \<mapsto> v)))"

text \<open>The map that a value of type \<^verbatim>\<open>map[string]string\<close> denotes; ranging over \<^verbatim>\<open>nil\<close>
  gives no entry.\<close>

definition deref :: "store \<Rightarrow> nat option \<Rightarrow> labels" where
  "deref h lbls = (case lbls of None \<Rightarrow> Map.empty | Some a \<Rightarrow> h a)"

text \<open>
  \<^verbatim>\<open>updateRuntimeObject\<close>: the error returned, the object as it was sent (it is updated in
  place) and the state; or \<open>Inl\<close> the panic.
\<close>

definition updateRuntimeObject ::
  "cluster \<Rightarrow> nat option \<Rightarrow> DeployArtifact \<Rightarrow> labeler \<Rightarrow> string + (error option \<times> DeployArtifact \<times> labeler)" where
  "updateRuntimeObject cl lbls res st =
     (case insert_defaults (DefaultLabels cl) lbls (maps st) of
        Inl p \<Rightarrow> Inl p
      | Inr h \<Rightarrow>
          (let st1 = st\<lparr>maps := h\<rparr>; obj = Obj res in
           if Kind obj = other_Object then
             Inr (None, res, st1\<lparr>lb_logged := lb_logged st1 @ [(Info, ''unknown runtime.Object, skipping label'')]\<rparr>)
           else
             (let obj1 = obj\<lparr>Meta := addSkaffoldLabels (deref h lbls) (Meta obj)\<rparr>;
                  ns = retrieveNamespace (DeployArtifact.Namespace res) (Meta obj1);
                  c = (if is_deployment (Kind obj) then Update ns obj1 else UpdateStatus ns obj1);
                  err = respond cl (length (client_calls st1))
              in Inr (err, res\<lparr>Obj := obj1\<rparr>, st1\<lparr>client_calls := client_calls st1 @ [c]\<rparr>))))"

text \<open>The retry loop for one result: \<open>i\<close> counts the tries made, out of \<open>tries = 3\<close>.\<close>

definition tries :: nat where
  "tries = 3"

function retry ::
  "cluster \<Rightarrow> nat option \<Rightarrow> nat \<Rightarrow> error option \<Rightarrow> DeployArtifact \<Rightarrow> labeler \<Rightarrow> string + (error option \<times> DeployArtifact \<times> labeler)" where
  "retry cl lbls i err res st =
     (if i < tries then
        (case updateRuntimeObject cl lbls res st of
           Inl p \<Rightarrow> Inl p
         | Inr (None, res1, st1) \<Rightarrow> Inr (None, res1, st1)
         | Inr (Some err1, res1, st1) \<Rightarrow> retry cl lbls (i + 1) (Some err1) res1 (st1\<lparr>slept := slept st1 + 1\<rparr>))
      else Inr (err, res, st))"
  by pat_completeness auto
termination
  by (relation "measure (\<lambda>(cl, lbls, i, err, res, st). tries - i)") auto

declare retry.simps [simp del]

fun label_results ::
  "cluster \<Rightarrow> nat option \<Rightarrow> DeployArtifact list \<Rightarrow> labeler \<Rightarrow> string + (DeployArtifact list \<times> labeler)" where
  "label_results cl lbls [] st = Inr ([], st)"
| "label_results cl lbls (res # results) st =
     (case retry cl lbls 0 None res st of
        Inl p \<Rightarrow> Inl p
      | Inr (err, res1, st1) \<Rightarrow>
          (let st2 = (case err of
                        Some e \<Rightarrow> st1\<lparr>lb_logged := lb_logged st1 @
                                   [(Warn, ''error adding label to runtime object: '' @ Error e)]\<rparr>
                      | None \<Rightarrow> st1)
           in case label_results cl lbls results st2 of
                Inl p \<Rightarrow> Inl p
              | Inr (rs, st3) \<Rightarrow> Inr (res1 # rs, st3)))"

text \<open>\<^verbatim>\<open>ApplyLabelDeployResults\<close>: the results as the client was sent them, and the state.\<close>

definition ApplyLabelDeployResults ::
  "cluster \<Rightarrow> nat option \<Rightarrow> DeployArtifact list \<Rightarrow> labeler \<Rightarrow> string + (DeployArtifact list \<times> labeler)" where
  "ApplyLabelDeployResults cl lbls results st =
     (case Client cl of
        Some err \<Rightarrow>
          Inr (results, st\<lparr>lb_logged := lb_logged st @
                               [(Warn, ''error retrieving kubernetes client: '' @ Error err)]\<rparr>)
      | None \<Rightarrow> label_results cl lbls results st)"

text \<open>The map of the caller after the default labels were assigned into it.\<close>

definition with_defaults :: "(string \<times> string) list \<Rightarrow> labels \<Rightarrow> labels" where
  "with_defaults dl m = fold (\<lambda>(k, v) m. m(k \<mapsto> v)) dl m"

definition new_labeler :: labeler where
  "new_labeler = \<lparr>maps = (\<lambda>a. Map.empty), client_calls = [], lb_logged = [], slept = 0\<rparr>"

section \<open>Properties of the manifest transformer\<close>

subsection \<open>The walk over one tree\<close>

lemma replace_image_value_fst:
  "fst (replace_image_value pr img s) = YStr (rewrite_image pr (tags (fst s)) img)"
  by (cases s) (auto simp: replace_image_value_def rewrite_image_def tags_def
           split: sum.splits option.splits)

lemma replace_image_value_tags:
  "tags (fst (snd (replace_image_value pr img s))) = tags (fst s)"
  by (cases s) (auto simp: replace_image_value_def tags_def fun_eq_iff
           split: sum.splits option.splits)

lemma replace_image_value_eq:
  obtains s' where "replace_image_value pr img s = (YStr (rewrite_image pr (tags (fst s)) img), s')"
        and "tags (fst s') = tags (fst s)"
  using replace_image_value_fst[of pr img s] replace_image_value_tags[of pr img s]
  by (cases "replace_image_value pr img s") auto

text \<open>A walk that returns keeps the tags of the table and the skeleton of the tree, and
  rewrites every \<open>image\<close> value.\<close>

lemma walk_result:
  "recursiveReplaceImage pr t s = Inr (t', s') \<Longrightarrow>
     tags (fst s') = tags (fst s) \<and> skeleton t' = skeleton t
     \<and> image_values t' = map (rewrite_value pr (tags (fst s))) (image_values t)"
  "replace_seq pr vs s = Inr (vs', s') \<Longrightarrow>
     tags (fst s') = tags (fst s) \<and> skeleton_seq vs' = skeleton_seq vs
     \<and> image_values_seq vs' = map (rewrite_value pr (tags (fst s))) (image_values_seq vs)"
  "replace_map pr kvs s = Inr (kvs', s') \<Longrightarrow>
     tags (fst s') = tags (fst s) \<and> skeleton_map kvs' = skeleton_map kvs
     \<and> image_values_map kvs' = map (rewrite_value pr (tags (fst s))) (image_values_map kvs)"
proof (induction pr t s and pr vs s and pr kvs s arbitrary: t' s' and vs' s' and kvs' s'
       rule: recursiveReplaceImage_replace_seq_replace_map.induct)
  case (11 pr k v kvs s)
  show ?case
  proof (cases k)
    case (YStr ks)
    show ?thesis
    proof (cases "ks = ''image''")
      case True
      then obtain img where v: "v = YStr img"
        using "11.prems" YStr by (auto split: yaml.splits)
      obtain s1 where r: "replace_image_value pr img s = (YStr (rewrite_image pr (tags (fst s)) img), s1)"
        and t1: "tags (fst s1) = tags (fst s)"
        by (rule replace_image_value_eq)
      from "11.prems" YStr True v r obtain kvs1 where
        k1: "replace_map pr kvs s1 = Inr (kvs1, s')" and
        k2: "kvs' = (k, YStr (rewrite_image pr (tags (fst s)) img)) # kvs1"
        by (auto split: sum.splits)
      from "11.IH"(3) YStr True v r k1
      have "tags (fst s') = tags (fst s1) \<and> skeleton_map kvs1 = skeleton_map kvs
            \<and> image_values_map kvs1 = map (rewrite_value pr (tags (fst s1))) (image_values_map kvs)"
        by simp
      then show ?thesis using t1 k2 v YStr True by simp
    next
      case False
      from "11.prems" YStr False obtain v1 s1 kvs1 where
        a: "recursiveReplaceImage pr v s = Inr (v1, s1)" and
        b: "replace_map pr kvs s1 = Inr (kvs1, s')" and
        c: "kvs' = (k, v1) # kvs1"
        by (auto split: sum.splits)
      from "11.IH"(1)[OF YStr False a] have
        a': "tags (fst s1) = tags (fst s) \<and> skeleton v1 = skeleton v
          \<and> image_values v1 = map (rewrite_value pr (tags (fst s))) (image_values v)" .
      from "11.IH"(2) YStr False a b have
        b': "tags (fst s') = tags (fst s1) \<and> skeleton_map kvs1 = skeleton_map kvs
          \<and> image_values_map kvs1 = map (rewrite_value pr (tags (fst s1))) (image_values_map kvs)"
        by simp
      show ?thesis using a' b' c YStr False by simp
    qed
  qed (use "11.prems" in \<open>auto split: yaml.splits\<close>)
qed (auto split: sum.splits)

text \<open>On a shaped tree the walk returns.\<close>

lemma walk_total:
  "shaped t \<Longrightarrow> \<exists>r. recursiveReplaceImage pr t s = Inr r"
  "shaped_seq vs \<Longrightarrow> \<exists>r. replace_seq pr vs s = Inr r"
  "shaped_map kvs \<Longrightarrow> \<exists>r. replace_map pr kvs s = Inr r"
proof (induction pr t s and pr vs s and pr kvs s
       rule: recursiveReplaceImage_replace_seq_replace_map.induct)
  case (1 pr t s)
  then obtain r where "replace_seq pr t s = Inr r" by auto
  then show ?case by (cases r) simp
next
  case (2 pr t s)
  then obtain r where "replace_map pr t s = Inr r" by auto
  then show ?case by (cases r) simp
next
  case (9 pr v vs s)
  from "9.IH"(1) "9.prems" obtain r1 where "recursiveReplaceImage pr v s = Inr r1" by auto
  then obtain v1 s1 where a: "recursiveReplaceImage pr v s = Inr (v1, s1)" by (cases r1) simp
  from "9.IH"(2)[OF a refl] "9.prems" obtain r where "replace_seq pr vs s1 = Inr r" by auto
  with a show ?case by (cases r) simp
next
  case (11 pr k v kvs s)
  from "11.prems" obtain ks where k: "k = YStr ks" by (cases k) simp_all
  show ?case
  proof (cases "ks = ''image''")
    case True
    with "11.prems" k obtain img where v: "v = YStr img" by (cases v) simp_all
    obtain v1 s1 where r: "replace_image_value pr img s = (v1, s1)"
      by (cases "replace_image_value pr img s") auto
    from "11.IH"(3)[OF k _ v r[symmetric]] True "11.prems" obtain r' where
      "replace_map pr kvs s1 = Inr r'"
      by auto
    with k True v r show ?thesis by (cases r') simp
  next
    case False
    from "11.IH"(1)[OF k False] k False "11.prems" obtain r1 where
      "recursiveReplaceImage pr v s = Inr r1" by auto
    then obtain v1 s1 where a: "recursiveReplaceImage pr v s = Inr (v1, s1)" by (cases r1) simp
    from "11.IH"(2)[OF k False a refl] "11.prems" obtain r' where
      "replace_map pr kvs s1 = Inr r'" by auto
    with k False a show ?thesis by (cases r') simp
  qed
qed simp_all

text \<open>The walk returns on shaped trees only: on any other tree it panics.\<close>

lemma walk_panics:
  "recursiveReplaceImage pr t s = Inr r \<Longrightarrow> shaped t"
  "replace_seq pr vs s = Inr rs \<Longrightarrow> shaped_seq vs"
  "replace_map pr kvs s = Inr rm \<Longrightarrow> shaped_map kvs"
proof (induction pr t s and pr vs s and pr kvs s arbitrary: r and rs and rm
       rule: recursiveReplaceImage_replace_seq_replace_map.induct)
  case (1 pr t s)
  then show ?case by (cases "replace_seq pr t s") auto
next
  case (2 pr t s)
  then show ?case by (cases "replace_map pr t s") auto
next
  case (9 pr v vs s)
  from "9.prems" obtain v1 s1 r' where
    a: "recursiveReplaceImage pr v s = Inr (v1, s1)" and b: "replace_seq pr vs s1 = Inr r'"
    by (auto split: sum.splits)
  from "9.IH"(1)[OF a] "9.IH"(2)[OF a refl b] show ?case by simp
next
  case (11 pr k v kvs s)
  from "11.prems" obtain ks where k: "k = YStr ks" by (cases k) simp_all
  show ?case
  proof (cases "ks = ''image''")
    case True
    with "11.prems" k obtain img where v: "v = YStr img" by (cases v) simp_all
    obtain v1 s1 where r: "replace_image_value pr img s = (v1, s1)"
      by (cases "replace_image_value pr img s") auto
    from "11.prems" k True v r obtain r' where b: "replace_map pr kvs s1 = Inr r'"
      by (auto split: sum.splits)
    from "11.IH"(3)[OF k _ v r[symmetric] b] True have "shaped_map kvs" by simp
    with k True v show ?thesis by simp
  next
    case False
    from "11.prems" k False obtain v1 s1 r' where
      a: "recursiveReplaceImage pr v s = Inr (v1, s1)" and b: "replace_map pr kvs s1 = Inr r'"
      by (auto split: sum.splits)
    from "11.IH"(1)[OF k False a] have "shaped v" .
    moreover from "11.IH"(2)[OF k False a refl b] have "shaped_map kvs" .
    ultimately show ?thesis using k False by simp
  qed
qed simp_all

lemma rewrite_image_idem:
  assumes "fixed_tags pr T"
  shows "rewrite_image pr T (rewrite_image pr T img) = rewrite_image pr T img"
proof (cases "pr img")
  case (Inl e)
  then show ?thesis by (simp add: rewrite_image_def)
next
  case (Inr parsed)
  show ?thesis
  proof (cases "FullyQualified parsed")
    case True
    with Inr show ?thesis by (simp add: rewrite_image_def)
  next
    case False
    show ?thesis
    proof (cases "T (BaseName parsed)")
      case None
      with Inr False show ?thesis by (simp add: rewrite_image_def)
    next
      case (Some t)
      then have "t \<in> ran T" by (auto simp: ran_def)
      with assms have "rewrite_image pr T t = t" by (simp add: fixed_tags_def)
      moreover have "rewrite_image pr T img = t"
        using Inr False Some by (simp add: rewrite_image_def)
      ultimately show ?thesis by simp
    qed
  qed
qed

text \<open>When the tags of the table are fixed, a second walk over the result of a walk returns
  the same tree.\<close>

lemma walk_idem:
  "recursiveReplaceImage pr t s = Inr (t', s') \<Longrightarrow> fixed_tags pr (tags (fst s)) \<Longrightarrow>
     tags (fst s2) = tags (fst s) \<Longrightarrow>
     \<exists>s3. recursiveReplaceImage pr t' s2 = Inr (t', s3) \<and> tags (fst s3) = tags (fst s)"
  "replace_seq pr vs s = Inr (vs', s') \<Longrightarrow> fixed_tags pr (tags (fst s)) \<Longrightarrow>
     tags (fst s2) = tags (fst s) \<Longrightarrow>
     \<exists>s3. replace_seq pr vs' s2 = Inr (vs', s3) \<and> tags (fst s3) = tags (fst s)"
  "replace_map pr kvs s = Inr (kvs', s') \<Longrightarrow> fixed_tags pr (tags (fst s)) \<Longrightarrow>
     tags (fst s2) = tags (fst s) \<Longrightarrow>
     \<exists>s3. replace_map pr kvs' s2 = Inr (kvs', s3) \<and> tags (fst s3) = tags (fst s)"
proof (induction pr t s and pr vs s and pr kvs s arbitrary: t' s' s2 and vs' s' s2 and kvs' s' s2
       rule: recursiveReplaceImage_replace_seq_replace_map.induct)
  case (1 pr t s)
  from "1.prems"(1) obtain t1 where a: "replace_seq pr t s = Inr (t1, s')" and b: "t' = YSeq t1"
    by (auto split: sum.splits)
  from "1.IH"[OF a "1.prems"(2,3)] b show ?case by auto
next
  case (2 pr t s)
  from "2.prems"(1) obtain t1 where a: "replace_map pr t s = Inr (t1, s')" and b: "t' = YMap t1"
    by (auto split: sum.splits)
  from "2.IH"[OF a "2.prems"(2,3)] b show ?case by auto
next
  case (9 pr v vs s)
  from "9.prems"(1) obtain v1 s1 vs1 where
    a: "recursiveReplaceImage pr v s = Inr (v1, s1)" and
    b: "replace_seq pr vs s1 = Inr (vs1, s')" and c: "vs' = v1 # vs1"
    by (auto split: sum.splits)
  have t1: "tags (fst s1) = tags (fst s)" using walk_result(1)[OF a] by simp
  from "9.IH"(1)[OF a "9.prems"(2,3)] obtain s3 where
    d: "recursiveReplaceImage pr v1 s2 = Inr (v1, s3)" and e: "tags (fst s3) = tags (fst s)"
    by blast
  have "\<exists>s4. replace_seq pr vs1 s3 = Inr (vs1, s4) \<and> tags (fst s4) = tags (fst s1)"
    using "9.IH"(2)[OF a refl b, of s3] t1 e "9.prems"(2) by simp
  then obtain s4 where "replace_seq pr vs1 s3 = Inr (vs1, s4)" and "tags (fst s4) = tags (fst s)"
    using t1 by auto
  with c d show ?case by simp
next
  case (11 pr k v kvs s)
  from "11.prems"(1) obtain ks where k: "k = YStr ks" by (cases k) simp_all
  show ?case
  proof (cases "ks = ''image''")
    case True
    with "11.prems"(1) k obtain img where v: "v = YStr img" by (cases v) simp_all
    obtain s1 where r: "replace_image_value pr img s = (YStr (rewrite_image pr (tags (fst s)) img), s1)"
      and t1: "tags (fst s1) = tags (fst s)"
      by (rule replace_image_value_eq)
    from "11.prems"(1) k True v r obtain kvs1 where
      k1: "replace_map pr kvs s1 = Inr (kvs1, s')" and
      k2: "kvs' = (k, YStr (rewrite_image pr (tags (fst s)) img)) # kvs1"
      by (auto split: sum.splits)
    obtain s3 where r2: "replace_image_value pr (rewrite_image pr (tags (fst s)) img) s2
         = (YStr (rewrite_image pr (tags (fst s2)) (rewrite_image pr (tags (fst s)) img)), s3)"
      and t3: "tags (fst s3) = tags (fst s2)"
      by (rule replace_image_value_eq)
    have same: "rewrite_image pr (tags (fst s2)) (rewrite_image pr (tags (fst s)) img)
          = rewrite_image pr (tags (fst s)) img"
      using rewrite_image_idem[OF "11.prems"(2)] "11.prems"(3) by simp
    have "\<exists>s4. replace_map pr kvs1 s3 = Inr (kvs1, s4) \<and> tags (fst s4) = tags (fst s1)"
      using "11.IH"(3)[OF k _ v r[symmetric] k1, of s3] True t1 t3 "11.prems"(2,3) by simp
    then obtain s4 where "replace_map pr kvs1 s3 = Inr (kvs1, s4)" and "tags (fst s4) = tags (fst s)"
      using t1 by auto
    with k True k2 r2 same show ?thesis by simp
  next
    case False
    from "11.prems"(1) k False obtain v1 s1 kvs1 where
      a: "recursiveReplaceImage pr v s = Inr (v1, s1)" and
      b: "replace_map pr kvs s1 = Inr (kvs1, s')" and
      c: "kvs' = (k, v1) # kvs1"
      by (auto split: sum.splits)
    have t1: "tags (fst s1) = tags (fst s)" using walk_result(1)[OF a] by simp
    from "11.IH"(1)[OF k False a "11.prems"(2,3)] obtain s3 where
      d: "recursiveReplaceImage pr v1 s2 = Inr (v1, s3)" and e: "tags (fst s3) = tags (fst s)"
      by blast
    have "\<exists>s4. replace_map pr kvs1 s3 = Inr (kvs1, s4) \<and> tags (fst s4) = tags (fst s1)"
      using "11.IH"(2)[OF k False a refl b, of s3] t1 e "11.prems"(2) by simp
    then obtain s4 where "replace_map pr kvs1 s3 = Inr (kvs1, s4)" and "tags (fst s4) = tags (fst s)"
      using t1 by auto
    with k False c d show ?thesis by simp
  qed
qed auto

subsection \<open>The pass over a manifest list\<close>

text \<open>The table built from the build results maps an image name to the tag of its last
  result.\<close>

lemma fold_repl:
  "fold (\<lambda>b R. R(ImageName b \<mapsto> \<lparr>tag = Tag b, found = False\<rparr>)) blds R0 n =
     (if \<exists>b\<in>set blds. ImageName b = n
      then Some \<lparr>tag = Tag (last (filter (\<lambda>b. ImageName b = n) blds)), found = False\<rparr>
      else R0 n)"
proof (induction blds arbitrary: R0)
  case Nil
  then show ?case by simp
next
  case (Cons b blds)
  let ?f = "\<lambda>b R. R(ImageName b \<mapsto> \<lparr>tag = Tag b, found = False\<rparr>)"
  let ?R1 = "R0(ImageName b \<mapsto> \<lparr>tag = Tag b, found = False\<rparr>)"
  have step: "fold ?f (b # blds) R0 n = fold ?f blds ?R1 n" by simp
  show ?case
  proof (cases "\<exists>b\<in>set blds. ImageName b = n")
    case True
    then have "filter (\<lambda>b. ImageName b = n) blds \<noteq> []" by (auto simp: filter_empty_conv)
    with True show ?thesis unfolding step Cons.IH[of ?R1] by simp
  next
    case False
    then have "filter (\<lambda>b. ImageName b = n) blds = []" by (auto simp: filter_empty_conv)
    with False show ?thesis unfolding step Cons.IH[of ?R1] by simp
  qed
qed

lemma build_tags_eq:
  "build_tags blds n =
     (if \<exists>b\<in>set blds. ImageName b = n
      then Some (Tag (last (filter (\<lambda>b. ImageName b = n) blds)))
      else None)"
  by (simp add: build_tags_def tags_def new_replacements_def fold_repl)

lemma image_rewritten_rewrite_value:
  "image_rewritten pr blds v (rewrite_value pr (build_tags blds) v)"
  by (cases v)
     (auto simp: image_rewritten_def rewrite_image_def build_tags_eq split: sum.splits)

lemma length_skeleton_map: "length (skeleton_map kvs) = length kvs"
  by (induction kvs) auto

lemma walk_map_result:
  assumes "recursiveReplaceImage pr (YMap m) s = Inr (t', s')"
  obtains m' where "t' = YMap m'" and "m' = [] \<longleftrightarrow> m = []"
    and "skeleton (YMap m') = skeleton (YMap m)"
    and "image_values (YMap m') = map (rewrite_value pr (tags (fst s))) (image_values (YMap m))"
    and "tags (fst s') = tags (fst s)"
proof -
  from assms obtain m' where t': "t' = YMap m'" by (auto split: sum.splits)
  from walk_result(1)[OF assms] t' have
    r: "tags (fst s') = tags (fst s)" "skeleton (YMap m') = skeleton (YMap m)"
       "image_values (YMap m') = map (rewrite_value pr (tags (fst s))) (image_values (YMap m))"
    by simp_all
  from r(2) have "length m' = length m"
    using length_skeleton_map[of m'] length_skeleton_map[of m] by simp
  then have "m' = [] \<longleftrightarrow> m = []" by auto
  with t' r that show thesis by blast
qed

text \<open>The pass over the list: one output document for each non-empty mapping of the input.\<close>

lemma manifests_result:
  assumes "replace_manifests y pr l (acc, s) = Inr (out, s')"
  shows "tags (fst s') = tags (fst s) \<and>
     (\<exists>bs. out = acc @ bs \<and>
        list_all2 (\<lambda>m b. \<exists>m'. Marshal y m' = Inr b \<and> skeleton (YMap m') = skeleton (YMap m)
             \<and> image_values (YMap m') = map (rewrite_value pr (tags (fst s))) (image_values (YMap m)))
          (documents y l) bs)"
  using assms
proof (induction l arbitrary: acc s)
  case Nil
  then show ?case by (simp add: documents_def)
next
  case (Cons d rest)
  from Cons.prems obtain m where um: "Unmarshal y d = Inr m"
    by (cases "Unmarshal y d") auto
  show ?case
  proof (cases "m = []")
    case True
    with Cons.prems um have "replace_manifests y pr rest (acc, s) = Inr (out, s')" by simp
    from Cons.IH[OF this] um True show ?thesis by (simp add: documents_def)
  next
    case False
    with Cons.prems um obtain t1 s1 where
      w: "recursiveReplaceImage pr (YMap m) s = Inr (t1, s1)"
      by (cases "recursiveReplaceImage pr (YMap m) s") auto
    from w obtain m1 where t1: "t1 = YMap m1"
      and sk: "skeleton (YMap m1) = skeleton (YMap m)"
      and iv: "image_values (YMap m1) = map (rewrite_value pr (tags (fst s))) (image_values (YMap m))"
      and tg: "tags (fst s1) = tags (fst s)"
      by (rule walk_map_result)
    from Cons.prems um False w t1 obtain b where
      ma: "Marshal y m1 = Inr b" and
      rest: "replace_manifests y pr rest (acc @ [b], s1) = Inr (out, s')"
      by (cases "Marshal y m1") auto
    from Cons.IH[OF rest] tg obtain bs where
      a: "tags (fst s') = tags (fst s)" and b: "out = (acc @ [b]) @ bs" and
      c: "list_all2 (\<lambda>m b. \<exists>m'. Marshal y m' = Inr b \<and> skeleton (YMap m') = skeleton (YMap m)
             \<and> image_values (YMap m') = map (rewrite_value pr (tags (fst s))) (image_values (YMap m)))
          (documents y rest) bs"
      by auto
    have doc: "documents y (d # rest) = m # documents y rest"
      using um False by (simp add: documents_def)
    have "out = acc @ (b # bs)" using b by simp
    moreover have "list_all2 (\<lambda>m b. \<exists>m'. Marshal y m' = Inr b \<and> skeleton (YMap m') = skeleton (YMap m)
             \<and> image_values (YMap m') = map (rewrite_value pr (tags (fst s))) (image_values (YMap m)))
          (documents y (d # rest)) (b # bs)"
      unfolding doc using c ma sk iv by auto
    ultimately show ?thesis using a by blast
  qed
qed

lemma list_all2_map_self: "(\<And>x. P x (f x)) \<Longrightarrow> list_all2 P xs (map f xs)"
  by (induction xs) auto

text \<open>
  C2. After a pass that returns, every output document is what the library wrote for a mapping
  that differs from the input mapping in its \<open>image\<close> values only, and each \<open>image\<close> value
  that parses as a reference which is not fully qualified and whose base name has a build
  result is that result's tag, every other \<open>image\<close> value being the one of the input.
\<close>

theorem replaceImages_rewrites:
  assumes "replaceImages y pr l blds = Inr (out, lg)"
  shows "list_all2 (document_rewritten y pr blds) (documents y l) out"
proof -
  from assms obtain R lg0 where
    r: "replace_manifests y pr l ([], new_replacements blds, []) = Inr (out, R, lg0)"
    by (auto simp: replaceImages_def split: sum.splits)
  from manifests_result[OF r] have
    "list_all2 (\<lambda>m b. \<exists>m'. Marshal y m' = Inr b \<and> skeleton (YMap m') = skeleton (YMap m)
             \<and> image_values (YMap m') = map (rewrite_value pr (build_tags blds)) (image_values (YMap m)))
          (documents y l) out"
    by (simp add: build_tags_def)
  then show ?thesis
  proof (rule list_all2_mono)
    fix m b
    assume "\<exists>m'. Marshal y m' = Inr b \<and> skeleton (YMap m') = skeleton (YMap m)
             \<and> image_values (YMap m') = map (rewrite_value pr (build_tags blds)) (image_values (YMap m))"
    then obtain m' where "Marshal y m' = Inr b" "skeleton (YMap m') = skeleton (YMap m)"
      "image_values (YMap m') = map (rewrite_value pr (build_tags blds)) (image_values (YMap m))"
      by blast
    moreover have "list_all2 (image_rewritten pr blds) (image_values (YMap m))
       (map (rewrite_value pr (build_tags blds)) (image_values (YMap m)))"
      by (rule list_all2_map_self) (rule image_rewritten_rewrite_value)
    ultimately show "document_rewritten y pr blds m b"
      unfolding document_rewritten_def by auto
  qed
qed


text \<open>The pass returns when every document is shaped and can be written back.\<close>

lemma manifests_total:
  assumes "\<forall>d\<in>set l. \<exists>m. Unmarshal y d = Inr m \<and> shaped (YMap m)"
      and "\<forall>m. \<exists>b. Marshal y m = Inr b"
  shows "\<exists>r. replace_manifests y pr l (acc, s) = Inr r"
  using assms(1)
proof (induction l arbitrary: acc s)
  case Nil
  then show ?case by simp
next
  case (Cons d rest)
  from Cons.prems obtain m where um: "Unmarshal y d = Inr m" and sh: "shaped (YMap m)" by auto
  from Cons.prems have rest: "\<forall>d\<in>set rest. \<exists>m. Unmarshal y d = Inr m \<and> shaped (YMap m)" by simp
  show ?case
  proof (cases "m = []")
    case True
    with um Cons.IH[OF rest] show ?thesis by simp
  next
    case False
    from walk_total(1)[OF sh] obtain r1 where "recursiveReplaceImage pr (YMap m) s = Inr r1"
      by blast
    then obtain t1 s1 where w: "recursiveReplaceImage pr (YMap m) s = Inr (t1, s1)"
      by (cases r1) simp
    from assms(2) obtain b where ma: "Marshal y (entries t1) = Inr b" by blast
    from Cons.IH[OF rest, of "acc @ [b]" s1] obtain r where
      "replace_manifests y pr rest (acc @ [b], s1) = Inr r" by blast
    with um False w ma have "replace_manifests y pr (d # rest) (acc, s) = Inr r" by simp
    then show ?thesis by blast
  qed
qed

lemma scalar_skipped: "is_scalar v \<Longrightarrow> recursiveReplaceImage pr v s = Inr (v, s)"
  by (cases v) simp_all

text \<open>
  C5, as amended. When every document of the list unmarshals to a mapping whose keys are all
  strings and whose \<open>image\<close> values are all strings, and the library can marshal, the pass
  returns a transformed list: it neither returns an error nor panics. An image reference that
  does not parse is kept, with a warning; a node that is neither a sequence nor a mapping is
  kept, without one. A document that the library rejects makes the pass return that error.
\<close>

theorem replaceImages_returns:
  assumes "\<forall>d\<in>set l. \<exists>m. Unmarshal y d = Inr m \<and> shaped (YMap m)"
      and "\<forall>m. \<exists>b. Marshal y m = Inr b"
  shows "(\<exists>out lg. replaceImages y pr l blds = Inr (out, lg))
     \<and> (\<forall>img s err. pr img = Inl err \<longrightarrow>
           replace_image_value pr img s
             = (YStr img, fst s, snd s @ [(Warn, ''Couldn't parse image: '' @ img)]))
     \<and> (\<forall>v s. is_scalar v \<longrightarrow> recursiveReplaceImage pr v s = Inr (v, s))
     \<and> (\<forall>d rest err. Unmarshal y d = Inl err \<longrightarrow>
           replaceImages y pr (d # rest) blds = Inl (Failed (Wrap err ''reading kubernetes YAML'')))"
proof -
  have rejected: "\<forall>d rest err. Unmarshal y d = Inl err \<longrightarrow>
           replaceImages y pr (d # rest) blds = Inl (Failed (Wrap err ''reading kubernetes YAML''))"
    by (simp add: replaceImages_def)
  from manifests_total[OF assms] obtain r where
    "replace_manifests y pr l ([], new_replacements blds, []) = Inr r" by blast
  then have "\<exists>out lg. replaceImages y pr l blds = Inr (out, lg)"
    by (cases r) (auto simp: replaceImages_def)
  moreover have "\<forall>img s err. pr img = Inl err \<longrightarrow>
           replace_image_value pr img s
             = (YStr img, fst s, snd s @ [(Warn, ''Couldn't parse image: '' @ img)])"
    by (simp add: replace_image_value_def)
  ultimately show ?thesis using scalar_skipped rejected by blast
qed

text \<open>A second pass over the output of a pass.\<close>

lemma manifests_idem:
  assumes rt: "\<forall>m b. Marshal y m = Inr b \<longrightarrow> Unmarshal y b = Inr m"
  shows "replace_manifests y pr l (acc, s) = Inr (out, s') \<Longrightarrow> fixed_tags pr (tags (fst s)) \<Longrightarrow>
     \<exists>bs. out = acc @ bs \<and>
       (\<forall>acc2 s2. tags (fst s2) = tags (fst s) \<longrightarrow>
          (\<exists>s3. replace_manifests y pr bs (acc2, s2) = Inr (acc2 @ bs, s3)))"
proof (induction l arbitrary: acc s)
  case Nil
  then show ?case by simp
next
  case (Cons d rest)
  from Cons.prems(1) obtain m where um: "Unmarshal y d = Inr m"
    by (cases "Unmarshal y d") auto
  show ?case
  proof (cases "m = []")
    case True
    with Cons.prems um have "replace_manifests y pr rest (acc, s) = Inr (out, s')" by simp
    from Cons.IH[OF this Cons.prems(2)] show ?thesis .
  next
    case False
    with Cons.prems(1) um obtain t1 s1 where
      w: "recursiveReplaceImage pr (YMap m) s = Inr (t1, s1)"
      by (cases "recursiveReplaceImage pr (YMap m) s") auto
    from w obtain m1 where t1: "t1 = YMap m1" and ne: "m1 = [] \<longleftrightarrow> m = []"
      and tg: "tags (fst s1) = tags (fst s)"
      by (rule walk_map_result)
    from Cons.prems(1) um False w t1 obtain b where
      ma: "Marshal y m1 = Inr b" and
      rest: "replace_manifests y pr rest (acc @ [b], s1) = Inr (out, s')"
      by (cases "Marshal y m1") auto
    from Cons.IH[OF rest] Cons.prems(2) tg obtain bs where
      o: "out = (acc @ [b]) @ bs" and
      again: "\<forall>acc2 s2. tags (fst s2) = tags (fst s) \<longrightarrow>
          (\<exists>s3. replace_manifests y pr bs (acc2, s2) = Inr (acc2 @ bs, s3))"
      by auto
    have um2: "Unmarshal y b = Inr m1" using rt ma by blast
    have "\<exists>s3. replace_manifests y pr (b # bs) (acc2, s2) = Inr (acc2 @ b # bs, s3)"
      if eq: "tags (fst s2) = tags (fst s)" for acc2 s2
    proof -
      from walk_idem(1)[OF w Cons.prems(2) eq] t1 obtain s3 where
        w2: "recursiveReplaceImage pr (YMap m1) s2 = Inr (YMap m1, s3)" and
        t3: "tags (fst s3) = tags (fst s)"
        by auto
      from again t3 obtain s4 where
        "replace_manifests y pr bs (acc2 @ [b], s3) = Inr ((acc2 @ [b]) @ bs, s4)"
        by blast
      with um2 ne False w2 ma show ?thesis by simp
    qed
    then show ?thesis using o by auto
  qed
qed

text \<open>
  C9, as amended. When the library reads back what it wrote, and every tag of the build results
  is itself left alone by the rewrite, a second pass over the output of a pass returns the same
  documents.
\<close>

theorem replaceImages_idempotent:
  assumes "replaceImages y pr l blds = Inr (out, lg)"
      and "\<forall>m b. Marshal y m = Inr b \<longrightarrow> Unmarshal y b = Inr m"
      and "fixed_tags pr (build_tags blds)"
  shows "\<exists>lg'. replaceImages y pr out blds = Inr (out, lg')"
proof -
  from assms(1) obtain R lg0 where
    r: "replace_manifests y pr l ([], new_replacements blds, []) = Inr (out, R, lg0)"
    by (auto simp: replaceImages_def split: sum.splits)
  have fx: "fixed_tags pr (tags (fst (new_replacements blds, ([]::logs))))"
    using assms(3) by (simp add: build_tags_def)
  from manifests_idem[OF assms(2) r fx] obtain bs where
    o: "out = [] @ bs" and
    again: "\<forall>acc2 s2. tags (fst s2) = tags (fst (new_replacements blds, ([]::logs))) \<longrightarrow>
          (\<exists>s3. replace_manifests y pr bs (acc2, s2) = Inr (acc2 @ bs, s3))"
    by blast
  from again obtain s3 where
    "replace_manifests y pr bs ([], new_replacements blds, []) = Inr ([] @ bs, s3)"
    by blast
  with o have "replace_manifests y pr out ([], new_replacements blds, []) = Inr (out, s3)"
    by simp
  then show ?thesis by (cases s3) (simp add: replaceImages_def)
qed

text \<open>Tags that are fully qualified, or that do not parse, are fixed.\<close>

lemma qualified_tags_fixed:
  assumes "\<forall>b\<in>set blds. case pr (Tag b) of Inl e \<Rightarrow> True | Inr parsed \<Rightarrow> FullyQualified parsed"
  shows "fixed_tags pr (build_tags blds)"
  unfolding fixed_tags_def
proof
  fix t assume "t \<in> ran (build_tags blds)"
  then obtain n where "build_tags blds n = Some t" by (auto simp: ran_def)
  then have ex: "\<exists>b\<in>set blds. ImageName b = n"
    and t: "t = Tag (last (filter (\<lambda>b. ImageName b = n) blds))"
    by (auto simp: build_tags_eq split: if_splits)
  from ex have "filter (\<lambda>b. ImageName b = n) blds \<noteq> []" by (auto simp: filter_empty_conv)
  then have "last (filter (\<lambda>b. ImageName b = n) blds) \<in> set (filter (\<lambda>b. ImageName b = n) blds)"
    by (rule last_in_set)
  then have "last (filter (\<lambda>b. ImageName b = n) blds) \<in> set blds" by simp
  with assms t have "case pr t of Inl e \<Rightarrow> True | Inr parsed \<Rightarrow> FullyQualified parsed" by blast
  then show "rewrite_image pr (build_tags blds) t = t"
    by (auto simp: rewrite_image_def split: sum.splits)
qed

subsection \<open>Runs of the transformer\<close>

lemmas run_defs = replaceImages_def new_replacements_def node_yaml_def ParseReference_def
      replace_image_value_def unused_warnings_def Let_def panic_conversion_def

text \<open>Witness of C2: the manifest of scenario S4, with one reference to rewrite and one
  fully-qualified reference.\<close>

theorem replaceImages_rewrites_witness:
  "replaceImages node_yaml ParseReference
     [YMap [(YStr ''spec'', YSeq [YMap [(YStr ''image'', YStr ''myapp'')],
                                  YMap [(YStr ''image'', YStr ''registry/other@sha256:abc'')]])]]
     [\<lparr>ImageName = ''myapp'', Tag = ''myapp:abc''\<rparr>]
   = Inr ([YMap [(YStr ''spec'', YSeq [YMap [(YStr ''image'', YStr ''myapp:abc'')],
                                       YMap [(YStr ''image'', YStr ''registry/other@sha256:abc'')]])]],
          [(Info, ''Not replacing fully qualified image: registry/other@sha256:abc (see #565)'')])
   \<and> list_all2 (document_rewritten node_yaml ParseReference [\<lparr>ImageName = ''myapp'', Tag = ''myapp:abc''\<rparr>])
        (documents node_yaml
           [YMap [(YStr ''spec'', YSeq [YMap [(YStr ''image'', YStr ''myapp'')],
                                        YMap [(YStr ''image'', YStr ''registry/other@sha256:abc'')]])]])
        [YMap [(YStr ''spec'', YSeq [YMap [(YStr ''image'', YStr ''myapp:abc'')],
                                     YMap [(YStr ''image'', YStr ''registry/other@sha256:abc'')]])]]"
proof -
  have h: "replaceImages node_yaml ParseReference
     [YMap [(YStr ''spec'', YSeq [YMap [(YStr ''image'', YStr ''myapp'')],
                                  YMap [(YStr ''image'', YStr ''registry/other@sha256:abc'')]])]]
     [\<lparr>ImageName = ''myapp'', Tag = ''myapp:abc''\<rparr>]
   = Inr ([YMap [(YStr ''spec'', YSeq [YMap [(YStr ''image'', YStr ''myapp:abc'')],
                                       YMap [(YStr ''image'', YStr ''registry/other@sha256:abc'')]])]],
          [(Info, ''Not replacing fully qualified image: registry/other@sha256:abc (see #565)'')])"
    by (simp add: run_defs)
  show ?thesis using h replaceImages_rewrites[OF h] by (rule conjI)
qed

text \<open>
  Counterexample to C5 as stated: a document that is a sequence does not unmarshal into a
  mapping, and the pass returns the error.
\<close>

theorem replaceImages_error_counterexample:
  "replaceImages node_yaml ParseReference [YSeq [YStr ''a'']] []
     = Inl (Failed (Wrap (New ''yaml: unmarshal errors'') ''reading kubernetes YAML''))"
  by (simp add: run_defs)

text \<open>The unchecked assertions: a number under an \<open>image\<close> key, or a number as a key, makes
  the pass panic.\<close>

lemma replaceImages_panics_on_image_number:
  "replaceImages node_yaml ParseReference [YMap [(YStr ''image'', YInt 5)]] []
     = Inl (Panic ''interface conversion: interface {} is not string'')"
  by (simp add: run_defs)

lemma replaceImages_panics_on_number_key:
  "replaceImages node_yaml ParseReference [YMap [(YInt 1, YStr ''a'')]] []
     = Inl (Panic ''interface conversion: interface {} is not string'')"
  by (simp add: run_defs)

text \<open>Witness of C5 as amended: a mapping with scalars and a reference that does not parse,
  followed by an empty document.\<close>

theorem replaceImages_returns_witness:
  "\<exists>out lg. replaceImages node_yaml ParseReference
     [YMap [(YStr ''kind'', YStr ''Pod''), (YStr ''replicas'', YInt 2),
            (YStr ''containers'', YSeq [YMap [(YStr ''image'', YStr '':'')], YMap [(YStr ''image'', YStr ''myapp'')]])],
      YNull]
     [\<lparr>ImageName = ''myapp'', Tag = ''myapp:abc''\<rparr>] = Inr (out, lg)"
proof -
  have h1: "\<forall>d\<in>set [YMap [(YStr ''kind'', YStr ''Pod''), (YStr ''replicas'', YInt 2),
            (YStr ''containers'', YSeq [YMap [(YStr ''image'', YStr '':'')], YMap [(YStr ''image'', YStr ''myapp'')]])],
      YNull]. \<exists>m. Unmarshal node_yaml d = Inr m \<and> shaped (YMap m)"
    by (simp add: node_yaml_def)
  have h2: "\<forall>m. \<exists>b. Marshal node_yaml m = Inr b"
    by (simp add: node_yaml_def)
  from replaceImages_returns[OF h1 h2, THEN conjunct1] show ?thesis .
qed

text \<open>
  Counterexample to C9 as stated: with the build results \<open>a \<mapsto> b\<close> and \<open>b \<mapsto> c\<close>, the first
  pass writes \<open>b\<close> for \<open>a\<close> and a second pass over its output writes \<open>c\<close>.
\<close>

theorem replaceImages_twice_counterexample:
  "replaceImages node_yaml ParseReference [YMap [(YStr ''image'', YStr ''a'')]]
       [\<lparr>ImageName = ''a'', Tag = ''b''\<rparr>, \<lparr>ImageName = ''b'', Tag = ''c''\<rparr>]
     = Inr ([YMap [(YStr ''image'', YStr ''b'')]], [(Warn, ''image [b] is not used by the deployment'')])
   \<and> replaceImages node_yaml ParseReference [YMap [(YStr ''image'', YStr ''b'')]]
       [\<lparr>ImageName = ''a'', Tag = ''b''\<rparr>, \<lparr>ImageName = ''b'', Tag = ''c''\<rparr>]
     = Inr ([YMap [(YStr ''image'', YStr ''c'')]], [(Warn, ''image [a] is not used by the deployment'')])"
  by (simp add: run_defs)

text \<open>Witness of C9 as amended: the output of the pass of scenario S4, transformed again.\<close>

theorem replaceImages_idempotent_witness:
  "\<exists>lg'. replaceImages node_yaml ParseReference
       [YMap [(YStr ''spec'', YSeq [YMap [(YStr ''image'', YStr ''myapp:abc'')],
                                    YMap [(YStr ''image'', YStr ''registry/other@sha256:abc'')]])]]
       [\<lparr>ImageName = ''myapp'', Tag = ''myapp:abc''\<rparr>]
     = Inr ([YMap [(YStr ''spec'', YSeq [YMap [(YStr ''image'', YStr ''myapp:abc'')],
                                         YMap [(YStr ''image'', YStr ''registry/other@sha256:abc'')]])]], lg')"
proof -
  have h: "replaceImages node_yaml ParseReference
     [YMap [(YStr ''spec'', YSeq [YMap [(YStr ''image'', YStr ''myapp'')],
                                  YMap [(YStr ''image'', YStr ''registry/other@sha256:abc'')]])]]
     [\<lparr>ImageName = ''myapp'', Tag = ''myapp:abc''\<rparr>]
   = Inr ([YMap [(YStr ''spec'', YSeq [YMap [(YStr ''image'', YStr ''myapp:abc'')],
                                       YMap [(YStr ''image'', YStr ''registry/other@sha256:abc'')]])]],
          [(Info, ''Not replacing fully qualified image: registry/other@sha256:abc (see #565)'')])"
    by (simp add: run_defs)
  have rt: "\<forall>m b. Marshal node_yaml m = Inr b \<longrightarrow> Unmarshal node_yaml b = Inr m"
    by (auto simp: node_yaml_def)
  have "\<forall>b\<in>set [\<lparr>ImageName = ''myapp'', Tag = ''myapp:abc''\<rparr>].
          case ParseReference (Tag b) of Inl e \<Rightarrow> True | Inr parsed \<Rightarrow> FullyQualified parsed"
    by (simp add: ParseReference_def Let_def)
  then have fx: "fixed_tags ParseReference (build_tags [\<lparr>ImageName = ''myapp'', Tag = ''myapp:abc''\<rparr>])"
    by (rule qualified_tags_fixed)
  from replaceImages_idempotent[OF h rt fx] show ?thesis .
qed

section \<open>Properties of the sync predicate\<close>

lemma match_patterns_no_error:
  assumes "\<forall>p f. snd (fm p f) = None"
  shows "match_patterns fm ps f = (if \<forall>p\<in>set ps. fst (fm p f) then None else Some (False, None))"
proof (induction ps)
  case Nil
  then show ?case by simp
next
  case (Cons p ps)
  obtain m where "fm p f = (m, None)" using assms by (metis prod.collapse)
  with Cons show ?case by simp
qed

lemma match_no_error:
  assumes "\<forall>p f. snd (fm p f) = None"
  shows "match fm ps fs = ((\<forall>f\<in>set fs. \<forall>p\<in>set ps. fst (fm p f)), None)"
  by (induction fs) (simp_all add: match_patterns_no_error[OF assms])

text \<open>What \<^verbatim>\<open>shouldSync\<close> computes when no pattern is malformed: the event has changed and every
  changed file matches every pattern.\<close>

lemma shouldSync_no_error:
  assumes "\<forall>p f. snd (fm p f) = None"
  shows "shouldSync fm ps e =
     (HasChanged e \<and> (\<forall>f\<in>set (Added e @ Modified e @ Deleted e). \<forall>p\<in>set ps. fst (fm p f)), None)"
  by (auto simp: shouldSync_def match_no_error[OF assms] Let_def)

section \<open>Properties of the dev loop\<close>

subsection \<open>The merge of build results\<close>

lemma updatedBuilds_fold:
  "fold (\<lambda>b m. m(ImageName b := True)) blds m0 n = (n \<in> ImageName ` set blds \<or> m0 n)"
  by (induction blds arbitrary: m0) auto

lemma updatedBuilds_iff: "updatedBuilds blds n \<longleftrightarrow> n \<in> ImageName ` set blds"
  by (simp add: updatedBuilds_def updatedBuilds_fold)

lemma fold_append_filter:
  "fold (\<lambda>b merged. if P b then merged @ [b] else merged) xs acc = acc @ filter P xs"
  by (induction xs arbitrary: acc) auto

text \<open>The merge in closed form.\<close>

lemma mergeWithPreviousBuilds_eq:
  "mergeWithPreviousBuilds blds previous =
     blds @ filter (\<lambda>b. ImageName b \<notin> ImageName ` set blds) previous"
  by (simp add: mergeWithPreviousBuilds_def fold_append_filter updatedBuilds_iff)

lemma filter_name_distinct:
  assumes "distinct (map ImageName xs)" and "b \<in> set xs"
  shows "filter (\<lambda>x. ImageName x = ImageName b) xs = [b]"
  using assms
proof (induction xs)
  case Nil
  then show ?case by simp
next
  case (Cons x xs)
  show ?case
  proof (cases "x = b")
    case True
    with Cons.prems have "ImageName b \<notin> ImageName ` set xs" by simp
    then have "\<forall>y\<in>set xs. ImageName y \<noteq> ImageName b" by (metis image_eqI)
    then have "filter (\<lambda>x. ImageName x = ImageName b) xs = []" by (simp add: filter_empty_conv)
    with True show ?thesis by simp
  next
    case False
    with Cons.prems have b: "b \<in> set xs" and "ImageName x \<noteq> ImageName b" by auto
    with Cons show ?thesis by simp
  qed
qed

lemma merge_keeps_previous_once:
  assumes "distinct (map ImageName previous)" and "b \<in> set previous"
      and "ImageName b \<notin> ImageName ` set blds"
  shows "filter (\<lambda>x. ImageName x = ImageName b) (mergeWithPreviousBuilds blds previous) = [b]"
proof -
  have "\<forall>x\<in>set blds. ImageName x \<noteq> ImageName b"
    using assms(3) by (metis image_eqI)
  then have "filter (\<lambda>x. ImageName x = ImageName b) blds = []"
    by (simp add: filter_empty_conv)
  moreover have "filter (\<lambda>x. ImageName x = ImageName b)
       (filter (\<lambda>b. ImageName b \<notin> ImageName ` set blds) previous)
     = filter (\<lambda>x. ImageName x = ImageName b) previous"
  proof -
    have "(\<lambda>x::BuildArtifact. ImageName x \<notin> ImageName ` set blds \<and> ImageName x = ImageName b)
          = (\<lambda>x. ImageName x = ImageName b)"
    proof (rule ext)
      fix x :: BuildArtifact
      show "(ImageName x \<notin> ImageName ` set blds \<and> ImageName x = ImageName b)
          = (ImageName x = ImageName b)"
        using assms(3) by (cases "ImageName x = ImageName b") simp_all
    qed
    then show ?thesis unfolding filter_filter by (rule arg_cong)
  qed
  then have "filter (\<lambda>x. ImageName x = ImageName b)
       (filter (\<lambda>b. ImageName b \<notin> ImageName ` set blds) previous) = [b]"
    using filter_name_distinct[OF assms(1,2)] by simp
  ultimately show ?thesis by (simp add: mergeWithPreviousBuilds_eq)
qed

text \<open>The merge keeps the invariant of the data model: each image is named once.\<close>

lemma merge_distinct:
  assumes "distinct (map ImageName previous)" and "distinct (map ImageName blds)"
  shows "distinct (map ImageName (mergeWithPreviousBuilds blds previous))"
proof -
  let ?rest = "filter (\<lambda>b. ImageName b \<notin> ImageName ` set blds) previous"
  have d1: "distinct (map ImageName ?rest)"
    using assms(1) by (simp add: distinct_map_filter)
  have "ImageName ` set blds \<inter> ImageName ` set ?rest = {}"
  proof (rule ccontr)
    assume "ImageName ` set blds \<inter> ImageName ` set ?rest \<noteq> {}"
    then obtain n where n: "n \<in> ImageName ` set blds" and "n \<in> ImageName ` set ?rest"
      by blast
    then obtain y where "y \<in> set ?rest" and "n = ImageName y" by blast
    then have "n \<notin> ImageName ` set blds" by simp
    with n show False by simp
  qed
  with d1 assms(2) show ?thesis by (simp add: mergeWithPreviousBuilds_eq)
qed

lemma merge_tag_table:
  "tag_table (mergeWithPreviousBuilds blds previous) = tag_table previous ++ tag_table blds"
proof
  fix n
  have dom: "n \<in> dom (tag_table blds) \<longleftrightarrow> n \<in> ImageName ` set blds"
    by (force simp: tag_table_def dom_map_of_conv_image_fst)
  have flt: "map_of (map (\<lambda>b. (ImageName b, Tag b)) (filter (\<lambda>b. ImageName b \<notin> ImageName ` set blds) previous)) n
      = (if n \<in> ImageName ` set blds then None else tag_table previous n)"
    unfolding tag_table_def by (induction previous) auto
  show "tag_table (mergeWithPreviousBuilds blds previous) n = (tag_table previous ++ tag_table blds) n"
  proof (cases "n \<in> ImageName ` set blds")
    case True
    with dom obtain t where "tag_table blds n = Some t" by auto
    then show ?thesis
      by (simp add: mergeWithPreviousBuilds_eq tag_table_def map_add_def)
  next
    case False
    with dom have "tag_table blds n = None" by auto
    with False flt show ?thesis
      by (simp add: mergeWithPreviousBuilds_eq tag_table_def map_add_def)
  qed
qed

subsection \<open>The handlers and the tick callback\<close>

text \<open>The handlers of the artifacts and of the deployer do not ask for a reload, and no handler
  calls the builder or the deployer.\<close>

lemma artifact_onChange_reload:
  "needsReload (changed (snd (artifact_onChange p a e w))) = needsReload (changed w)"
  by (auto simp: artifact_onChange_def call_Copy_def call_Delete_def Fprintln_def Add_def
           split: prod.splits option.splits)

lemma artifact_onChange_builds:
  "filter is_build (calls (snd (artifact_onChange p a e w))) = filter is_build (calls w)"
  "filter is_deploy (calls (snd (artifact_onChange p a e w))) = filter is_deploy (calls w)"
  "stopped (snd (artifact_onChange p a e w)) = stopped w"
  by (auto simp: artifact_onChange_def call_Copy_def call_Delete_def Fprintln_def Add_def
           split: prod.splits option.splits)

lemma component_onChange_keeps:
  "filter is_build (calls (snd (component_onChange p c e w))) = filter is_build (calls w)"
  "filter is_deploy (calls (snd (component_onChange p c e w))) = filter is_deploy (calls w)"
  by (cases c; simp add: artifact_onChange_builds)+

lemma component_onChange_reload:
  "needsReload (changed (snd (component_onChange p c e w))) =
     (c = ConfigComponent \<or> needsReload (changed w))"
  by (cases c) (simp_all add: artifact_onChange_reload)

text \<open>A tick that lists every component: no error, and what the handlers keep.\<close>

lemma poll_listed:
  assumes "\<forall>(c, obs)\<in>set cs. \<exists>e. obs = Inr e"
  shows "fst (poll p cs n w) = None \<and> n \<le> fst (snd (poll p cs n w))
     \<and> filter is_build (calls (snd (snd (poll p cs n w)))) = filter is_build (calls w)
     \<and> filter is_deploy (calls (snd (snd (poll p cs n w)))) = filter is_deploy (calls w)
     \<and> (needsReload (changed w) \<longrightarrow> needsReload (changed (snd (snd (poll p cs n w)))))"
  using assms
proof (induction cs arbitrary: n w)
  case Nil
  then show ?case by simp
next
  case (Cons x cs)
  obtain c obs where x: "x = (c, obs)" by (cases x)
  with Cons.prems obtain e where obs: "obs = Inr e" by auto
  from Cons.prems have rest: "\<forall>(c, obs)\<in>set cs. \<exists>e. obs = Inr e" by simp
  show ?case
  proof (cases "HasChanged e")
    case False
    with x obs Cons.IH[OF rest, of n w] show ?thesis by simp
  next
    case True
    obtain r w1 where h: "component_onChange p c e w = (r, w1)"
      by (cases "component_onChange p c e w")
    have k: "filter is_build (calls w1) = filter is_build (calls w)"
      "filter is_deploy (calls w1) = filter is_deploy (calls w)"
      "needsReload (changed w) \<longrightarrow> needsReload (changed w1)"
      using component_onChange_keeps[of p c e w] component_onChange_reload[of p c e w] h by simp_all
    show ?thesis
    proof (cases r)
      case None
      with x obs True h k Cons.IH[OF rest, of "n + 1" w1] show ?thesis by simp
    next
      case (Some err)
      let ?w2 = "w1\<lparr>logged := logged w1 @ [(Warn, ''on change error: %s'')]\<rparr>"
      from x obs True h Some k Cons.IH[OF rest, of "n + 1" ?w2] show ?thesis by simp
    qed
  qed
qed

text \<open>A tick that sees the configuration changed counts a change and sets \<open>needsReload\<close>.\<close>

lemma poll_config_changed:
  assumes "\<forall>(c, obs)\<in>set cs. \<exists>e. obs = Inr e"
      and "\<exists>e. (ConfigComponent, Inr e) \<in> set cs \<and> HasChanged e"
  shows "0 < fst (snd (poll p cs n w)) \<and> needsReload (changed (snd (snd (poll p cs n w))))"
  using assms
proof (induction cs arbitrary: n w)
  case Nil
  then show ?case by simp
next
  case (Cons x cs)
  obtain c obs where x: "x = (c, obs)" by (cases x)
  with Cons.prems obtain e where obs: "obs = Inr e" by auto
  from Cons.prems have rest: "\<forall>(c, obs)\<in>set cs. \<exists>e. obs = Inr e" by simp
  show ?case
  proof (cases "\<exists>e. (ConfigComponent, Inr e) \<in> set cs \<and> HasChanged e")
    case True
    show ?thesis
    proof (cases "HasChanged e")
      case False
      with x obs Cons.IH[OF rest True, of n w] show ?thesis by simp
    next
      case ch: True
      obtain r w1 where h: "component_onChange p c e w = (r, w1)"
        by (cases "component_onChange p c e w")
      show ?thesis
      proof (cases r)
        case None
        with x obs ch h Cons.IH[OF rest True, of "n + 1" w1] show ?thesis by simp
      next
        case (Some err)
        let ?w2 = "w1\<lparr>logged := logged w1 @ [(Warn, ''on change error: %s'')]\<rparr>"
        from x obs ch h Some Cons.IH[OF rest True, of "n + 1" ?w2] show ?thesis by simp
      qed
    qed
  next
    case False
    with Cons.prems(2) x obs have c: "c = ConfigComponent" and ch: "HasChanged e" by auto
    let ?w1 = "w\<lparr>changed := (changed w)\<lparr>needsReload := True\<rparr>\<rparr>"
    have a: "poll p (x # cs) n w = poll p cs (n + 1) ?w1"
      using x obs c ch by simp
    from poll_listed[OF rest, of p "n + 1" ?w1] show ?thesis unfolding a by simp
  qed
qed

text \<open>A tick that does not see the configuration changed leaves \<open>needsReload\<close> unset.\<close>

lemma poll_quiet:
  assumes "\<forall>(c, obs)\<in>set cs. \<exists>e. obs = Inr e \<and> (c = ConfigComponent \<longrightarrow> \<not> HasChanged e)"
      and "\<not> needsReload (changed w)"
  shows "fst (poll p cs n w) = None \<and> \<not> needsReload (changed (snd (snd (poll p cs n w))))"
  using assms
proof (induction cs arbitrary: n w)
  case Nil
  then show ?case by simp
next
  case (Cons x cs)
  obtain c obs where x: "x = (c, obs)" by (cases x)
  with Cons.prems obtain e where obs: "obs = Inr e"
    and cf: "c = ConfigComponent \<longrightarrow> \<not> HasChanged e" by auto
  from Cons.prems have rest:
    "\<forall>(c, obs)\<in>set cs. \<exists>e. obs = Inr e \<and> (c = ConfigComponent \<longrightarrow> \<not> HasChanged e)" by simp
  show ?case
  proof (cases "HasChanged e")
    case False
    with x obs Cons.IH[OF rest Cons.prems(2), of n] show ?thesis by simp
  next
    case True
    obtain r w1 where h: "component_onChange p c e w = (r, w1)"
      by (cases "component_onChange p c e w")
    have k: "\<not> needsReload (changed w1)"
      using component_onChange_reload[of p c e w] h cf True Cons.prems(2) by simp
    show ?thesis
    proof (cases r)
      case None
      with x obs True h Cons.IH[OF rest k, of "n + 1"] show ?thesis by simp
    next
      case (Some err)
      let ?w2 = "w1\<lparr>logged := logged w1 @ [(Warn, ''on change error: %s'')]\<rparr>"
      have k2: "\<not> needsReload (changed ?w2)" using k by simp
      from x obs True h Some Cons.IH[OF rest k2, of "n + 1"] show ?thesis by simp
    qed
  qed
qed

text \<open>The callback, case by case of its \<^verbatim>\<open>switch\<close>.\<close>

lemma onChange_reload:
  assumes "needsReload (changed w)"
  shows "onChange p w =
     (Some ErrorConfigurationChanged,
      w\<lparr>muted := True, stopped := True, changed := reset,
        printed := printed w @ [''Watching for changes...'']\<rparr>)"
  using assms by (simp add: onChange_def on_tick_def Fprintln_def)

lemma onChange_no_reload:
  assumes "\<not> needsReload (changed w)"
  shows "fst (onChange p w) = None \<and> changed (snd (onChange p w)) = reset"
  using assms
  by (auto simp: onChange_def on_tick_def Fprintln_def Let_def call_Build_def call_Deploy_def
        Warnln_def updateBuiltImages_def split: prod.splits sum.splits option.splits)

lemma onChange_build_error:
  assumes "\<not> needsReload (changed w)" and "dirtyArtifacts (changed w) \<noteq> []"
      and "Build p (length (filter is_build (calls w))) (dirtyArtifacts (changed w)) = Inl err"
  shows "onChange p w =
     (None,
      w\<lparr>muted := True, calls := calls w @ [BuildCall (dirtyArtifacts (changed w))],
        logged := logged w @ [(Warn, ''Skipping Deploy due to build error: '' @ Error err)],
        changed := reset, printed := printed w @ [''Watching for changes...'']\<rparr>)"
  using assms
  by (simp add: onChange_def on_tick_def Fprintln_def call_Build_def Warnln_def)

lemma onChange_build_ok:
  assumes "\<not> needsReload (changed w)" and "dirtyArtifacts (changed w) \<noteq> []"
      and "Build p (length (filter is_build (calls w))) (dirtyArtifacts (changed w)) = Inr bRes"
  shows "calls (snd (onChange p w)) =
           calls w @ [BuildCall (dirtyArtifacts (changed w)),
                      DeployCall (mergeWithPreviousBuilds bRes (builds w))]
       \<and> builds (snd (onChange p w)) = mergeWithPreviousBuilds bRes (builds w)"
  using assms
  by (auto simp: onChange_def on_tick_def Fprintln_def call_Build_def call_Deploy_def Warnln_def
        updateBuiltImages_def Let_def split: prod.splits option.splits)

lemma onChange_deploy_error:
  assumes "\<not> needsReload (changed w)" and "dirtyArtifacts (changed w) \<noteq> []"
      and "Build p (length (filter is_build (calls w))) (dirtyArtifacts (changed w)) = Inr bRes"
      and "Deploy p (length (filter is_deploy (calls w))) (mergeWithPreviousBuilds bRes (builds w)) = Some err"
  shows "fst (onChange p w) = None \<and>
     logged (snd (onChange p w)) = logged w @ [(Warn, ''Skipping Deploy due to error: '' @ Error err)]
     \<and> muted (snd (onChange p w))"
  using assms
  by (simp add: onChange_def on_tick_def Fprintln_def call_Build_def call_Deploy_def Warnln_def
        updateBuiltImages_def Let_def)

lemma onChange_redeploy_error:
  assumes "\<not> needsReload (changed w)" and "dirtyArtifacts (changed w) = []"
      and "needsRedeploy (changed w)"
      and "Deploy p (length (filter is_deploy (calls w))) (builds w) = Some err"
  shows "fst (onChange p w) = None \<and>
     logged (snd (onChange p w)) = logged w @ [(Warn, ''Skipping Deploy due to error: '' @ Error err)]
     \<and> muted (snd (onChange p w))"
  using assms
  by (simp add: onChange_def on_tick_def Fprintln_def call_Deploy_def Warnln_def)



subsection \<open>The watch loop and the first run\<close>

lemma no_reload_quiet:
  assumes "no_reload comps t"
  shows "\<forall>(c, obs)\<in>set (zip comps t). \<exists>e. obs = Inr e \<and> (c = ConfigComponent \<longrightarrow> \<not> HasChanged e)"
  using assms unfolding no_reload_def listed_def config_changed_def by fastforce

text \<open>Over ticks without reload the watcher returns no error.\<close>

lemma run_quiet:
  assumes "\<forall>t\<in>set ticks. no_reload comps t" and "\<not> needsReload (changed w)"
  shows "fst (Run p comps ticks w) = None"
  using assms
proof (induction ticks arbitrary: w)
  case Nil
  then show ?case by simp
next
  case (Cons t ticks)
  from Cons.prems(1) have nr: "no_reload comps t" and rest: "\<forall>t\<in>set ticks. no_reload comps t"
    by simp_all
  note q = no_reload_quiet[OF nr]
  obtain r n w1 where pl: "poll p (zip comps t) 0 w = (r, n, w1)"
    by (cases "poll p (zip comps t) 0 w") auto
  from poll_quiet[OF q Cons.prems(2), of p 0] pl have r: "r = None" and k: "\<not> needsReload (changed w1)"
    by simp_all
  show ?case
  proof (cases "n > 0")
    case False
    with pl r Cons.IH[OF rest k] show ?thesis by simp
  next
    case True
    obtain r2 w2 where oc: "onChange p w1 = (r2, w2)" by (cases "onChange p w1")
    from onChange_no_reload[OF k, of p] oc have "r2 = None" and "\<not> needsReload (changed w2)"
      by (simp_all add: reset_def)
    with pl r True oc Cons.IH[OF rest, of w2] show ?thesis by simp
  qed
qed

text \<open>A reload tick ends the watcher with the wrapped sentinel.\<close>

lemma run_reload_tick:
  assumes "listed comps t" and "config_changed comps t"
  shows "\<exists>w'. Run p comps (t # ticks) w
            = (Some (Wrap ErrorConfigurationChanged ''calling final callback''), w')
       \<and> stopped w'
       \<and> filter is_build (calls w') = filter is_build (calls w)
       \<and> filter is_deploy (calls w') = filter is_deploy (calls w)"
proof -
  from assms(1) have l: "\<forall>(c, obs)\<in>set (zip comps t). \<exists>e. obs = Inr e"
    by (simp add: listed_def)
  from assms(2) have c: "\<exists>e. (ConfigComponent, Inr e) \<in> set (zip comps t) \<and> HasChanged e"
    by (simp add: config_changed_def)
  obtain r n w1 where pl: "poll p (zip comps t) 0 w = (r, n, w1)"
    by (cases "poll p (zip comps t) 0 w") auto
  from poll_listed[OF l, of p 0 w] pl have r: "r = None"
    and b: "filter is_build (calls w1) = filter is_build (calls w)"
    and d: "filter is_deploy (calls w1) = filter is_deploy (calls w)"
    by simp_all
  from poll_config_changed[OF l c, of p 0 w] pl have n: "0 < n" and nr: "needsReload (changed w1)"
    by simp_all
  from pl r n onChange_reload[OF nr, of p] b d show ?thesis by simp
qed

lemma run_skips_quiet_ticks:
  assumes "\<forall>t\<in>set pre. no_reload comps t" and "\<not> needsReload (changed w)"
  shows "\<exists>w'. Run p comps (pre @ rest) w = Run p comps rest w'"
  using assms
proof (induction pre arbitrary: w)
  case Nil
  then show ?case by auto
next
  case (Cons t pre)
  from Cons.prems(1) have nr: "no_reload comps t" and more: "\<forall>t\<in>set pre. no_reload comps t"
    by simp_all
  note q = no_reload_quiet[OF nr]
  obtain r n w1 where pl: "poll p (zip comps t) 0 w = (r, n, w1)"
    by (cases "poll p (zip comps t) 0 w") auto
  from poll_quiet[OF q Cons.prems(2), of p 0] pl have r: "r = None" and k: "\<not> needsReload (changed w1)"
    by simp_all
  show ?case
  proof (cases "n > 0")
    case False
    with pl r Cons.IH[OF more k] show ?thesis by simp
  next
    case True
    obtain r2 w2 where oc: "onChange p w1 = (r2, w2)" by (cases "onChange p w1")
    from onChange_no_reload[OF k, of p] oc have "r2 = None" and "\<not> needsReload (changed w2)"
      by (simp_all add: reset_def)
    with pl r True oc Cons.IH[OF more, of w2] show ?thesis by simp
  qed
qed

text \<open>The first run of \<^verbatim>\<open>Dev\<close>.\<close>

lemma dev_first_build_fails:
  assumes "register_all p opts artifacts = Inr comps" and "Build p 0 artifacts = Inl err"
  shows "Dev p opts artifacts ticks r_builds =
     (Some (Wrap err ''exiting dev mode because the first build failed''),
      (new_world r_builds)\<lparr>calls := [BuildCall artifacts]\<rparr>)"
  using assms by (simp add: Dev_def call_Build_def new_world_def)

lemma dev_first_deploy_fails:
  assumes "register_all p opts artifacts = Inr comps" and "Build p 0 artifacts = Inr bRes"
      and "Deploy p 0 (mergeWithPreviousBuilds bRes r_builds) = Some err"
  shows "fst (Dev p opts artifacts ticks r_builds) =
     Some (Wrap err ''exiting dev mode because the first deploy failed'')"
  using assms
  by (simp add: Dev_def call_Build_def call_Deploy_def new_world_def updateBuiltImages_def Let_def)

lemma dev_enters_loop:
  assumes "register_all p opts artifacts = Inr comps" and "Build p 0 artifacts = Inr bRes"
      and "Deploy p 0 (mergeWithPreviousBuilds bRes r_builds) = None"
      and "loggerStart p = None" and "forwarderStart p = None"
  shows "Dev p opts artifacts ticks r_builds =
     Run p comps ticks
       ((new_world r_builds)
          \<lparr>builds := mergeWithPreviousBuilds bRes r_builds,
           imageList := fold (\<lambda>b images. images @ [Tag b]) bRes [],
           logger_started := True, forwarder_started := True,
           calls := [BuildCall artifacts, DeployCall (mergeWithPreviousBuilds bRes r_builds)]\<rparr>)"
  using assms
  by (simp add: Dev_def call_Build_def call_Deploy_def new_world_def updateBuiltImages_def Let_def)

subsection \<open>What a tick builds and deploys, and which errors end the session\<close>

text \<open>
  C3. On a tick that builds the dirty artifacts, the list handed to the deployer is the merge
  of the results of this build with the builds known before: it is the new results followed by
  the previous builds of the images that were not rebuilt, so that, as a table from image name
  to tag, it is the previous table overridden by the new one; every new result is in it, an
  entry for a rebuilt image is a new result, and, the previous builds naming each image once,
  each image that was not rebuilt appears exactly once, with its previous tag.
\<close>

theorem tick_deploys_merged_builds:
  assumes "\<not> needsReload (changed w)" and "dirtyArtifacts (changed w) \<noteq> []"
      and "Build p (length (filter is_build (calls w))) (dirtyArtifacts (changed w)) = Inr bRes"
      and "distinct (map ImageName (builds w))"
  shows "calls (snd (onChange p w)) =
           calls w @ [BuildCall (dirtyArtifacts (changed w)),
                      DeployCall (mergeWithPreviousBuilds bRes (builds w))]
     \<and> mergeWithPreviousBuilds bRes (builds w)
          = bRes @ filter (\<lambda>b. ImageName b \<notin> ImageName ` set bRes) (builds w)
     \<and> tag_table (mergeWithPreviousBuilds bRes (builds w)) = tag_table (builds w) ++ tag_table bRes
     \<and> (\<forall>b\<in>set bRes. b \<in> set (mergeWithPreviousBuilds bRes (builds w)))
     \<and> (\<forall>x\<in>set (mergeWithPreviousBuilds bRes (builds w)).
           ImageName x \<in> ImageName ` set bRes \<longrightarrow> x \<in> set bRes)
     \<and> (\<forall>b\<in>set (builds w). ImageName b \<notin> ImageName ` set bRes \<longrightarrow>
           filter (\<lambda>x. ImageName x = ImageName b) (mergeWithPreviousBuilds bRes (builds w)) = [b])"
proof -
  have 1: "calls (snd (onChange p w)) =
           calls w @ [BuildCall (dirtyArtifacts (changed w)),
                      DeployCall (mergeWithPreviousBuilds bRes (builds w))]"
    using onChange_build_ok[OF assms(1,2,3)] by simp
  have 2: "mergeWithPreviousBuilds bRes (builds w)
          = bRes @ filter (\<lambda>b. ImageName b \<notin> ImageName ` set bRes) (builds w)"
    by (rule mergeWithPreviousBuilds_eq)
  have 3: "tag_table (mergeWithPreviousBuilds bRes (builds w)) = tag_table (builds w) ++ tag_table bRes"
    by (rule merge_tag_table)
  have 4: "\<forall>b\<in>set bRes. b \<in> set (mergeWithPreviousBuilds bRes (builds w))"
    by (simp add: mergeWithPreviousBuilds_eq)
  have 5: "\<forall>x\<in>set (mergeWithPreviousBuilds bRes (builds w)).
           ImageName x \<in> ImageName ` set bRes \<longrightarrow> x \<in> set bRes"
    unfolding mergeWithPreviousBuilds_eq by auto
  have 6: "\<forall>b\<in>set (builds w). ImageName b \<notin> ImageName ` set bRes \<longrightarrow>
           filter (\<lambda>x. ImageName x = ImageName b) (mergeWithPreviousBuilds bRes (builds w)) = [b]"
    using merge_keeps_previous_once[OF assms(4)] by blast
  from 1 2 3 4 5 6 show ?thesis by blast
qed

text \<open>
  C4. A failure of the first build or of the first deploy makes \<^verbatim>\<open>Dev\<close> return that error,
  wrapped with the reason for leaving dev mode. On a later tick (one that does not reload) the
  callback returns no error whatever the builder and the deployer return, a failed build or
  deploy being logged as a warning, and leaves the accumulator empty; so once the first run has
  passed and the two streams have started, \<^verbatim>\<open>Dev\<close> returns no error over any ticks that list
  their files and do not change the configuration.
\<close>

theorem first_run_fatal_later_errors_dropped:
  assumes "register_all p opts artifacts = Inr comps"
  shows "(\<forall>err. Build p 0 artifacts = Inl err \<longrightarrow>
            fst (Dev p opts artifacts ticks r_builds)
              = Some (Wrap err ''exiting dev mode because the first build failed'')
            \<and> Cause (Wrap err ''exiting dev mode because the first build failed'') = Cause err)
     \<and> (\<forall>bRes err. Build p 0 artifacts = Inr bRes
            \<and> Deploy p 0 (mergeWithPreviousBuilds bRes r_builds) = Some err \<longrightarrow>
            fst (Dev p opts artifacts ticks r_builds)
              = Some (Wrap err ''exiting dev mode because the first deploy failed''))
     \<and> (\<forall>w. \<not> needsReload (changed w) \<longrightarrow>
            fst (onChange p w) = None \<and> changed (snd (onChange p w)) = reset)
     \<and> (\<forall>w err. \<not> needsReload (changed w) \<and> dirtyArtifacts (changed w) \<noteq> []
            \<and> Build p (length (filter is_build (calls w))) (dirtyArtifacts (changed w)) = Inl err \<longrightarrow>
            logged (snd (onChange p w))
              = logged w @ [(Warn, ''Skipping Deploy due to build error: '' @ Error err)]
            \<and> filter is_deploy (calls (snd (onChange p w))) = filter is_deploy (calls w))
     \<and> (\<forall>w bRes err. \<not> needsReload (changed w) \<and> dirtyArtifacts (changed w) \<noteq> []
            \<and> Build p (length (filter is_build (calls w))) (dirtyArtifacts (changed w)) = Inr bRes
            \<and> Deploy p (length (filter is_deploy (calls w)))
                 (mergeWithPreviousBuilds bRes (builds w)) = Some err \<longrightarrow>
            logged (snd (onChange p w))
              = logged w @ [(Warn, ''Skipping Deploy due to error: '' @ Error err)])
     \<and> (\<forall>w err. \<not> needsReload (changed w) \<and> dirtyArtifacts (changed w) = []
            \<and> needsRedeploy (changed w)
            \<and> Deploy p (length (filter is_deploy (calls w))) (builds w) = Some err \<longrightarrow>
            logged (snd (onChange p w))
              = logged w @ [(Warn, ''Skipping Deploy due to error: '' @ Error err)])
     \<and> (\<forall>bRes. Build p 0 artifacts = Inr bRes
            \<and> Deploy p 0 (mergeWithPreviousBuilds bRes r_builds) = None
            \<and> loggerStart p = None \<and> forwarderStart p = None
            \<and> (\<forall>t\<in>set ticks. no_reload comps t) \<longrightarrow>
            fst (Dev p opts artifacts ticks r_builds) = None)"
proof -
  have 1: "\<forall>err. Build p 0 artifacts = Inl err \<longrightarrow>
            fst (Dev p opts artifacts ticks r_builds)
              = Some (Wrap err ''exiting dev mode because the first build failed'')
            \<and> Cause (Wrap err ''exiting dev mode because the first build failed'') = Cause err"
    using dev_first_build_fails[OF assms] by simp
  have 2: "\<forall>bRes err. Build p 0 artifacts = Inr bRes
            \<and> Deploy p 0 (mergeWithPreviousBuilds bRes r_builds) = Some err \<longrightarrow>
            fst (Dev p opts artifacts ticks r_builds)
              = Some (Wrap err ''exiting dev mode because the first deploy failed'')"
    using dev_first_deploy_fails[OF assms] by blast
  have 3: "\<forall>w. \<not> needsReload (changed w) \<longrightarrow>
            fst (onChange p w) = None \<and> changed (snd (onChange p w)) = reset"
    using onChange_no_reload by blast
  have 4: "\<forall>w err. \<not> needsReload (changed w) \<and> dirtyArtifacts (changed w) \<noteq> []
            \<and> Build p (length (filter is_build (calls w))) (dirtyArtifacts (changed w)) = Inl err \<longrightarrow>
            logged (snd (onChange p w))
              = logged w @ [(Warn, ''Skipping Deploy due to build error: '' @ Error err)]
            \<and> filter is_deploy (calls (snd (onChange p w))) = filter is_deploy (calls w)"
    by (simp add: onChange_build_error)
  have 5: "\<forall>w bRes err. \<not> needsReload (changed w) \<and> dirtyArtifacts (changed w) \<noteq> []
            \<and> Build p (length (filter is_build (calls w))) (dirtyArtifacts (changed w)) = Inr bRes
            \<and> Deploy p (length (filter is_deploy (calls w)))
                 (mergeWithPreviousBuilds bRes (builds w)) = Some err \<longrightarrow>
            logged (snd (onChange p w))
              = logged w @ [(Warn, ''Skipping Deploy due to error: '' @ Error err)]"
    using onChange_deploy_error by blast
  have 6: "\<forall>w err. \<not> needsReload (changed w) \<and> dirtyArtifacts (changed w) = []
            \<and> needsRedeploy (changed w)
            \<and> Deploy p (length (filter is_deploy (calls w))) (builds w) = Some err \<longrightarrow>
            logged (snd (onChange p w))
              = logged w @ [(Warn, ''Skipping Deploy due to error: '' @ Error err)]"
    using onChange_redeploy_error by blast
  have 7: "\<forall>bRes. Build p 0 artifacts = Inr bRes
            \<and> Deploy p 0 (mergeWithPreviousBuilds bRes r_builds) = None
            \<and> loggerStart p = None \<and> forwarderStart p = None
            \<and> (\<forall>t\<in>set ticks. no_reload comps t) \<longrightarrow>
            fst (Dev p opts artifacts ticks r_builds) = None"
  proof (intro allI impI)
    fix bRes
    assume h: "Build p 0 artifacts = Inr bRes
            \<and> Deploy p 0 (mergeWithPreviousBuilds bRes r_builds) = None
            \<and> loggerStart p = None \<and> forwarderStart p = None
            \<and> (\<forall>t\<in>set ticks. no_reload comps t)"
    then have d: "Dev p opts artifacts ticks r_builds =
       Run p comps ticks
         ((new_world r_builds)
            \<lparr>builds := mergeWithPreviousBuilds bRes r_builds,
             imageList := fold (\<lambda>b images. images @ [Tag b]) bRes [],
             logger_started := True, forwarder_started := True,
             calls := [BuildCall artifacts, DeployCall (mergeWithPreviousBuilds bRes r_builds)]\<rparr>)"
      using dev_enters_loop[OF assms] by blast
    show "fst (Dev p opts artifacts ticks r_builds) = None"
      unfolding d using h by (intro run_quiet) (simp_all add: new_world_def reset_def)
  qed
  from 1 2 3 4 5 6 7 show ?thesis by blast
qed


text \<open>
  C8. In a tick that lists every component and sees the configuration file changed, the
  watcher ends with the sentinel \<open>ErrorConfigurationChanged\<close>, wrapped by \<^verbatim>\<open>Run\<close> (the
  sentinel is the cause of the returned error); the log aggregator is stopped and the tick adds
  no call of the builder or of the deployer. The callback gives the reload priority: with
  \<open>needsReload\<close> set it returns the sentinel and only mutes and stops the aggregator, whatever
  the dirty artifacts and \<open>needsRedeploy\<close> are. \<^verbatim>\<open>Dev\<close> returns that error to its caller at the
  first such tick.
\<close>

theorem reload_takes_priority:
  assumes "listed comps t" and "config_changed comps t"
  shows "(\<exists>w'. Run p comps (t # ticks) w
              = (Some (Wrap ErrorConfigurationChanged ''calling final callback''), w')
            \<and> stopped w'
            \<and> filter is_build (calls w') = filter is_build (calls w)
            \<and> filter is_deploy (calls w') = filter is_deploy (calls w))
     \<and> Cause (Wrap ErrorConfigurationChanged ''calling final callback'') = ErrorConfigurationChanged
     \<and> (\<forall>w. needsReload (changed w) \<longrightarrow>
            onChange p w =
              (Some ErrorConfigurationChanged,
               w\<lparr>muted := True, stopped := True, changed := reset,
                 printed := printed w @ [''Watching for changes...'']\<rparr>))
     \<and> (\<forall>opts artifacts bRes r_builds pre.
            register_all p opts artifacts = Inr comps \<and> Build p 0 artifacts = Inr bRes
            \<and> Deploy p 0 (mergeWithPreviousBuilds bRes r_builds) = None
            \<and> loggerStart p = None \<and> forwarderStart p = None
            \<and> (\<forall>t\<in>set pre. no_reload comps t) \<longrightarrow>
            fst (Dev p opts artifacts (pre @ t # ticks) r_builds)
              = Some (Wrap ErrorConfigurationChanged ''calling final callback''))"
proof -
  note 1 = run_reload_tick[OF assms, of p ticks w]
  have 2: "Cause (Wrap ErrorConfigurationChanged ''calling final callback'') = ErrorConfigurationChanged"
    by simp
  have 3: "\<forall>w. needsReload (changed w) \<longrightarrow>
            onChange p w =
              (Some ErrorConfigurationChanged,
               w\<lparr>muted := True, stopped := True, changed := reset,
                 printed := printed w @ [''Watching for changes...'']\<rparr>)"
    using onChange_reload by blast
  have 4: "\<forall>opts artifacts bRes r_builds pre.
            register_all p opts artifacts = Inr comps \<and> Build p 0 artifacts = Inr bRes
            \<and> Deploy p 0 (mergeWithPreviousBuilds bRes r_builds) = None
            \<and> loggerStart p = None \<and> forwarderStart p = None
            \<and> (\<forall>t\<in>set pre. no_reload comps t) \<longrightarrow>
            fst (Dev p opts artifacts (pre @ t # ticks) r_builds)
              = Some (Wrap ErrorConfigurationChanged ''calling final callback'')"
  proof (intro allI impI)
    fix opts artifacts bRes r_builds pre
    assume h: "register_all p opts artifacts = Inr comps \<and> Build p 0 artifacts = Inr bRes
            \<and> Deploy p 0 (mergeWithPreviousBuilds bRes r_builds) = None
            \<and> loggerStart p = None \<and> forwarderStart p = None
            \<and> (\<forall>t\<in>set pre. no_reload comps t)"
    let ?w0 = "(new_world r_builds)
            \<lparr>builds := mergeWithPreviousBuilds bRes r_builds,
             imageList := fold (\<lambda>b images. images @ [Tag b]) bRes [],
             logger_started := True, forwarder_started := True,
             calls := [BuildCall artifacts, DeployCall (mergeWithPreviousBuilds bRes r_builds)]\<rparr>"
    from h have d: "Dev p opts artifacts (pre @ t # ticks) r_builds = Run p comps (pre @ t # ticks) ?w0"
      using dev_enters_loop by blast
    have "\<not> needsReload (changed ?w0)" by (simp add: new_world_def reset_def)
    with h obtain w' where "Run p comps (pre @ t # ticks) ?w0 = Run p comps (t # ticks) w'"
      using run_skips_quiet_ticks by blast
    with d run_reload_tick[OF assms, of p ticks w']
    show "fst (Dev p opts artifacts (pre @ t # ticks) r_builds)
              = Some (Wrap ErrorConfigurationChanged ''calling final callback'')"
      by auto
  qed
  from 1 2 3 4 show ?thesis by blast
qed

subsection \<open>Runs of the dev loop\<close>

lemmas dev_defs = Dev_def register_all_def shouldWatch_def test_collaborators_def TestBuilder_def
  TestDeployer_def literal_Match_def call_Build_def call_Deploy_def call_Copy_def call_Delete_def
  new_world_def reset_def updateBuiltImages_def mergeWithPreviousBuilds_def updatedBuilds_def
  onChange_def on_tick_def artifact_onChange_def shouldSync_def HasChanged_def Add_def
  Warnln_def Fprintln_def Let_def

text \<open>
  C1, evaluated. An artifact without sync patterns whose file \<open>main.go\<close> was modified: the
  predicate answers that the change can be synced, and the handler copies the file instead of
  marking the artifact dirty.
\<close>

theorem shouldSync_without_patterns:
  "shouldSync literal_Match [] \<lparr>Added = [], Modified = [''main.go''], Deleted = []\<rparr> = (True, None)
   \<and> artifact_onChange (test_collaborators [] [])
        \<lparr>Artifact.ImageName = ''app'', Workspace = ''.'', Sync = []\<rparr>
        \<lparr>Added = [], Modified = [''main.go''], Deleted = []\<rparr> (new_world [])
      = (None, (new_world [])\<lparr>calls := [CopyCall ''app'' [''main.go''], DeleteCall ''app'' []],
                              printed := [''Synced files.'']\<rparr>)"
  by (simp add: dev_defs)

text \<open>A file that matches one of two patterns, but not both, is not synced.\<close>

lemma shouldSync_one_of_two_patterns:
  "shouldSync literal_Match [''index.html'', ''style.css'']
     \<lparr>Added = [], Modified = [''index.html''], Deleted = []\<rparr> = (False, None)"
  by (simp add: dev_defs)

text \<open>Witness of C3: scenario S5. The images \<open>a\<close> and \<open>b\<close> were built with tag 1; a tick
  rebuilds \<open>a\<close> only, and the deployer receives \<open>a:2\<close> and \<open>b:1\<close>.\<close>

theorem tick_deploys_merged_builds_witness:
  "calls (snd (onChange
       ((test_collaborators [] [])\<lparr>Build := (\<lambda>n as. Inr [\<lparr>ImageName = ''a'', Tag = ''a:2''\<rparr>])\<rparr>)
       ((new_world [\<lparr>ImageName = ''a'', Tag = ''a:1''\<rparr>, \<lparr>ImageName = ''b'', Tag = ''b:1''\<rparr>])
          \<lparr>changed := \<lparr>dirtyArtifacts = [\<lparr>Artifact.ImageName = ''a'', Workspace = ''.'', Sync = []\<rparr>],
                       needsRedeploy = False, needsReload = False\<rparr>\<rparr>)))
   = [BuildCall [\<lparr>Artifact.ImageName = ''a'', Workspace = ''.'', Sync = []\<rparr>],
      DeployCall [\<lparr>ImageName = ''a'', Tag = ''a:2''\<rparr>, \<lparr>ImageName = ''b'', Tag = ''b:1''\<rparr>]]"
proof -
  let ?p = "(test_collaborators [] [])\<lparr>Build := (\<lambda>n as. Inr [\<lparr>ImageName = ''a'', Tag = ''a:2''\<rparr>])\<rparr>"
  let ?w = "(new_world [\<lparr>ImageName = ''a'', Tag = ''a:1''\<rparr>, \<lparr>ImageName = ''b'', Tag = ''b:1''\<rparr>])
          \<lparr>changed := \<lparr>dirtyArtifacts = [\<lparr>Artifact.ImageName = ''a'', Workspace = ''.'', Sync = []\<rparr>],
                       needsRedeploy = False, needsReload = False\<rparr>\<rparr>"
  have h1: "\<not> needsReload (changed ?w)" by simp
  have h2: "dirtyArtifacts (changed ?w) \<noteq> []" by simp
  have h3: "Build ?p (length (filter is_build (calls ?w))) (dirtyArtifacts (changed ?w))
              = Inr [\<lparr>ImageName = ''a'', Tag = ''a:2''\<rparr>]"
    by simp
  have h4: "distinct (map ImageName (builds ?w))" by (simp add: new_world_def)
  from tick_deploys_merged_builds[OF h1 h2 h3 h4]
  have "calls (snd (onChange ?p ?w)) =
           calls ?w @ [BuildCall (dirtyArtifacts (changed ?w)),
                       DeployCall (mergeWithPreviousBuilds [\<lparr>ImageName = ''a'', Tag = ''a:2''\<rparr>] (builds ?w))]"
    by blast
  then show ?thesis
    by (simp add: new_world_def mergeWithPreviousBuilds_def updatedBuilds_def)
qed

text \<open>
  Witness of C4, after the runner's test of a later build error: the builder succeeds once and
  then fails. The artifact changes in the only tick, in a file outside its sync pattern; the
  build of that tick fails, and \<^verbatim>\<open>Dev\<close> returns no error.
\<close>

theorem first_run_fatal_later_errors_dropped_witness:
  "fst (Dev (test_collaborators [None, Some (New ''build failed'')] [])
          \<lparr>Watch = [], ConfigurationFile = ''skaffold.yaml''\<rparr>
          [\<lparr>Artifact.ImageName = ''test'', Workspace = ''.'', Sync = [''static/index.html'']\<rparr>]
          [[Inr \<lparr>Added = [], Modified = [''main.go''], Deleted = []\<rparr>,
            Inr \<lparr>Added = [], Modified = [], Deleted = []\<rparr>,
            Inr \<lparr>Added = [], Modified = [], Deleted = []\<rparr>]]
          []) = None"
proof -
  let ?p = "test_collaborators [None, Some (New ''build failed'')] []"
  let ?opts = "\<lparr>Watch = [], ConfigurationFile = ''skaffold.yaml''\<rparr>"
  let ?a = "\<lparr>Artifact.ImageName = ''test'', Workspace = ''.'', Sync = [''static/index.html'']\<rparr>"
  let ?comps = "[ArtifactComponent ?a, DeployerComponent, ConfigComponent]"
  let ?ticks = "[[Inr \<lparr>Added = [], Modified = [''main.go''], Deleted = []\<rparr>,
            Inr \<lparr>Added = [], Modified = [], Deleted = []\<rparr>,
            Inr \<lparr>Added = [], Modified = [], Deleted = []\<rparr>]]"
  have h0: "register_all ?p ?opts [?a] = Inr ?comps"
    by (simp add: register_all_def shouldWatch_def test_collaborators_def)
  have h: "Build ?p 0 [?a] = Inr []
      \<and> Deploy ?p 0 (mergeWithPreviousBuilds [] []) = None
      \<and> loggerStart ?p = None \<and> forwarderStart ?p = None
      \<and> (\<forall>t\<in>set ?ticks. no_reload ?comps t)"
    by (simp add: test_collaborators_def TestBuilder_def TestDeployer_def no_reload_def listed_def
          config_changed_def HasChanged_def)
  from first_run_fatal_later_errors_dropped[OF h0, of ?ticks "[]"] h
  show ?thesis by blast
qed

text \<open>The same session, evaluated: the second build is attempted and fails, the failure is
  logged as a warning, nothing is deployed again, and the aggregator stays muted.\<close>

lemma later_build_error_run:
  "Dev (test_collaborators [None, Some (New ''build failed'')] [])
          \<lparr>Watch = [], ConfigurationFile = ''skaffold.yaml''\<rparr>
          [\<lparr>Artifact.ImageName = ''test'', Workspace = ''.'', Sync = [''static/index.html'']\<rparr>]
          [[Inr \<lparr>Added = [], Modified = [''main.go''], Deleted = []\<rparr>,
            Inr \<lparr>Added = [], Modified = [], Deleted = []\<rparr>,
            Inr \<lparr>Added = [], Modified = [], Deleted = []\<rparr>]]
          []
   = (None,
      \<lparr>builds = [], changed = reset, imageList = [], muted = True, stopped = False,
       logger_started = True, forwarder_started = True,
       printed = [''Watching for changes...''],
       logged = [(Warn, ''Skipping Deploy due to build error: build failed'')],
       calls = [BuildCall [\<lparr>Artifact.ImageName = ''test'', Workspace = ''.'', Sync = [''static/index.html'']\<rparr>],
                DeployCall [],
                BuildCall [\<lparr>Artifact.ImageName = ''test'', Workspace = ''.'', Sync = [''static/index.html'']\<rparr>]]\<rparr>)"
  by (simp add: dev_defs)

text \<open>The runner's test of a first build that fails.\<close>

lemma first_build_error_run:
  "fst (Dev (test_collaborators [Some (New ''build failed'')] [])
          \<lparr>Watch = [], ConfigurationFile = ''skaffold.yaml''\<rparr> [] [] [])
   = Some (Wrap (New ''build failed'') ''exiting dev mode because the first build failed'')"
  by (simp add: dev_defs)

text \<open>Witness of C8: scenario S6. The only tick sees the configuration file changed.\<close>

theorem reload_takes_priority_witness:
  "fst (Dev (test_collaborators [] [])
          \<lparr>Watch = [], ConfigurationFile = ''skaffold.yaml''\<rparr>
          [\<lparr>Artifact.ImageName = ''test'', Workspace = ''.'', Sync = [''static/index.html'']\<rparr>]
          ([] @ [Inr \<lparr>Added = [], Modified = [''main.go''], Deleted = []\<rparr>,
                 Inr \<lparr>Added = [], Modified = [], Deleted = []\<rparr>,
                 Inr \<lparr>Added = [], Modified = [''skaffold.yaml''], Deleted = []\<rparr>] # [])
          [])
   = Some (Wrap ErrorConfigurationChanged ''calling final callback'')"
proof -
  let ?p = "test_collaborators [] []"
  let ?opts = "\<lparr>Watch = [], ConfigurationFile = ''skaffold.yaml''\<rparr>"
  let ?a = "\<lparr>Artifact.ImageName = ''test'', Workspace = ''.'', Sync = [''static/index.html'']\<rparr>"
  let ?comps = "[ArtifactComponent ?a, DeployerComponent, ConfigComponent]"
  let ?t = "[Inr \<lparr>Added = [], Modified = [''main.go''], Deleted = []\<rparr>,
                 Inr \<lparr>Added = [], Modified = [], Deleted = []\<rparr>,
                 Inr \<lparr>Added = [], Modified = [''skaffold.yaml''], Deleted = []\<rparr>]"
  have l: "listed ?comps ?t" by (simp add: listed_def)
  have c: "config_changed ?comps ?t" by (simp add: config_changed_def HasChanged_def)
  have h: "register_all ?p ?opts [?a] = Inr ?comps
      \<and> Build ?p 0 [?a] = Inr [\<lparr>ImageName = ''test'', Tag = []\<rparr>]
      \<and> Deploy ?p 0 (mergeWithPreviousBuilds [\<lparr>ImageName = ''test'', Tag = []\<rparr>] []) = None
      \<and> loggerStart ?p = None \<and> forwarderStart ?p = None
      \<and> (\<forall>t\<in>set []. no_reload ?comps t)"
    by (simp add: register_all_def shouldWatch_def test_collaborators_def TestBuilder_def
          TestDeployer_def)
  from reload_takes_priority[OF l c, of ?p "[]"] h
  show ?thesis by blast
qed

text \<open>The same session, evaluated: the change of \<open>main.go\<close> made the artifact dirty, yet the
  tick neither builds nor deploys; the aggregator is stopped.\<close>

lemma reload_run:
  "Dev (test_collaborators [] [])
          \<lparr>Watch = [], ConfigurationFile = ''skaffold.yaml''\<rparr>
          [\<lparr>Artifact.ImageName = ''test'', Workspace = ''.'', Sync = [''static/index.html'']\<rparr>]
          [[Inr \<lparr>Added = [], Modified = [''main.go''], Deleted = []\<rparr>,
            Inr \<lparr>Added = [], Modified = [], Deleted = []\<rparr>,
            Inr \<lparr>Added = [], Modified = [''skaffold.yaml''], Deleted = []\<rparr>]]
          []
   = (Some (Wrap ErrorConfigurationChanged ''calling final callback''),
      \<lparr>builds = [\<lparr>ImageName = ''test'', Tag = []\<rparr>], changed = reset, imageList = [[]],
       muted = True, stopped = True, logger_started = True, forwarder_started = True,
       printed = [''Watching for changes...''], logged = [],
       calls = [BuildCall [\<lparr>Artifact.ImageName = ''test'', Workspace = ''.'', Sync = [''static/index.html'']\<rparr>],
                DeployCall [\<lparr>ImageName = ''test'', Tag = []\<rparr>]]\<rparr>)"
  by (simp add: dev_defs)

section \<open>Runs of the port forwarder\<close>

lemmas pf_defs = NewPortForwarder_def portForwardPod_def forward_def stop_def cleanupPorts_def
  key_def Load_def Atoi_def digit_of_def Sprintf_d_def Let_def

lemma cleanupPorts_first_only:
  assumes "forwardedPods fw = (k, entry) # rest"
  shows "cleanupPorts fw =
     (case stop entry fw of
        (Some err, s1) \<Rightarrow> s1\<lparr>pf_logged := pf_logged s1 @ [(Warn, ''cleaning up port forwards'')]\<rparr>
      | (None, s1) \<Rightarrow> s1)"
  using assms by (simp add: cleanupPorts_def split: prod.splits option.splits)

text \<open>
  C6, evaluated. The pod \<open>web-1\<close>, at resource version 7, is forwarded first; then comes the
  pod \<open>web-2\<close> with the same container and port, at resource version 6. The entry of the key
  \<open>web-8080\<close> is replaced by one of a lower resource version, the first process receives no
  signal, and both processes run.
\<close>

theorem older_pod_replaces_entry:
  "Start (\<lambda>pod. True) (\<lambda>pid. None)
     [Event Modified_event (Some \<lparr>Pod.Name = ''web-1'', ResourceVersion = ''7'', Phase = PodRunning,
          DeletionTimestamp = None, Containers = [\<lparr>Container.Name = ''web'', Ports = [8080]\<rparr>]\<rparr>),
      Event Modified_event (Some \<lparr>Pod.Name = ''web-2'', ResourceVersion = ''6'', Phase = PodRunning,
          DeletionTimestamp = None, Containers = [\<lparr>Container.Name = ''web'', Ports = [8080]\<rparr>]\<rparr>)]
     NewPortForwarder
   = \<lparr>forwardedPods = [(''web-8080'', \<lparr>resourceVersion = 6, podName = ''web-2'',
                          containerName = ''web'', port = 8080, cmd = Some 1\<rparr>)],
      running = [0, 1], started = 2, signalled = [],
      pf_output = [''Port Forwarding web-1 8080 -> 8080'', ''Port Forwarding web-2 8080 -> 8080''],
      pf_logged = []\<rparr>"
  by (simp add: pf_defs)

text \<open>With a higher resource version the first process is signalled before the second starts.\<close>

lemma newer_pod_replaces_entry:
  "Start (\<lambda>pod. True) (\<lambda>pid. None)
     [Event Modified_event (Some \<lparr>Pod.Name = ''web-1'', ResourceVersion = ''7'', Phase = PodRunning,
          DeletionTimestamp = None, Containers = [\<lparr>Container.Name = ''web'', Ports = [8080]\<rparr>]\<rparr>),
      Event Modified_event (Some \<lparr>Pod.Name = ''web-1'', ResourceVersion = ''9'', Phase = PodRunning,
          DeletionTimestamp = None, Containers = [\<lparr>Container.Name = ''web'', Ports = [8080]\<rparr>]\<rparr>)]
     NewPortForwarder
   = \<lparr>forwardedPods = [(''web-8080'', \<lparr>resourceVersion = 9, podName = ''web-1'',
                          containerName = ''web'', port = 8080, cmd = Some 1\<rparr>)],
      running = [1], started = 2, signalled = [0],
      pf_output = [''Port Forwarding web-1 8080 -> 8080'', ''Port Forwarding web-1 8080 -> 8080''],
      pf_logged = []\<rparr>"
  by (simp add: pf_defs)

text \<open>
  C7, evaluated. Two pods are forwarded under two keys, then the context is cancelled: the
  cleanup signals the process of the first entry only, and the second keeps running.
\<close>

theorem cleanup_stops_one_entry:
  "Start (\<lambda>pod. True) (\<lambda>pid. None)
     [Event Modified_event (Some \<lparr>Pod.Name = ''web-1'', ResourceVersion = ''7'', Phase = PodRunning,
          DeletionTimestamp = None, Containers = [\<lparr>Container.Name = ''web'', Ports = [8080]\<rparr>]\<rparr>),
      Event Modified_event (Some \<lparr>Pod.Name = ''db-1'', ResourceVersion = ''8'', Phase = PodRunning,
          DeletionTimestamp = None, Containers = [\<lparr>Container.Name = ''db'', Ports = [5432]\<rparr>]\<rparr>),
      Done]
     NewPortForwarder
   = \<lparr>forwardedPods = [(''web-8080'', \<lparr>resourceVersion = 7, podName = ''web-1'',
                          containerName = ''web'', port = 8080, cmd = Some 0\<rparr>),
                       (''db-5432'', \<lparr>resourceVersion = 8, podName = ''db-1'',
                          containerName = ''db'', port = 5432, cmd = Some 1\<rparr>)],
      running = [1], started = 2, signalled = [0],
      pf_output = [''Port Forwarding web-1 8080 -> 8080'', ''Port Forwarding db-1 5432 -> 5432''],
      pf_logged = []\<rparr>"
  by (simp add: pf_defs)

section \<open>Properties of the labeler\<close>

text \<open>Assigning the default labels into a map of the store.\<close>

lemma insert_defaults_some:
  "insert_defaults dl (Some a) h = Inr (h(a := with_defaults dl (h a)))"
  by (induction dl arbitrary: h) (auto simp: with_defaults_def)

lemma with_defaults_map_add: "with_defaults dl m = m ++ map_of (rev dl)"
proof (induction dl arbitrary: m)
  case Nil
  then show ?case by (simp add: with_defaults_def)
next
  case (Cons x dl)
  obtain k v where x: "x = (k, v)" by (cases x)
  have "with_defaults (x # dl) m = with_defaults dl (m(k \<mapsto> v))"
    by (simp add: with_defaults_def x)
  also have "\<dots> = m(k \<mapsto> v) ++ map_of (rev dl)" by (rule Cons.IH)
  also have "\<dots> = m ++ map_of (rev (x # dl))"
    by (rule ext) (simp add: x map_add_def split: option.splits)
  finally show ?case .
qed

lemma with_defaults_idem: "with_defaults dl (with_defaults dl m) = with_defaults dl m"
  unfolding with_defaults_map_add by (rule ext) (simp add: map_add_def split: option.splits)

lemma dom_with_defaults: "dom (with_defaults dl m) = dom m \<union> fst ` set dl"
  by (auto simp: with_defaults_map_add dom_map_of_conv_image_fst)

lemma with_defaults_holds:
  assumes "distinct (map fst dl)" and "(k, v) \<in> set dl"
  shows "with_defaults dl m k = Some v"
proof -
  have "distinct (map fst (rev dl))" using assms(1) by (simp add: rev_map[symmetric])
  moreover have "(k, v) \<in> set (rev dl)" using assms(2) by simp
  ultimately have "map_of (rev dl) k = Some v" by (rule map_of_is_SomeI)
  then show ?thesis by (simp add: with_defaults_map_add map_add_def)
qed

lemma updateRuntimeObject_some:
  "\<exists>err res' st'. updateRuntimeObject cl (Some a) res st = Inr (err, res', st')
     \<and> maps st' = (maps st)(a := with_defaults (DefaultLabels cl) (maps st a))
     \<and> (Kind (Obj res) \<noteq> other_Object \<longrightarrow>
          Labels (Meta (Obj res')) =
            Some ((case Labels (Meta (Obj res)) of None \<Rightarrow> Map.empty | Some ls \<Rightarrow> ls)
                  ++ with_defaults (DefaultLabels cl) (maps st a)))"
  by (simp add: updateRuntimeObject_def insert_defaults_some Let_def deref_def addSkaffoldLabels_def)

text \<open>The tries for one result, and the loop over the results: the map at the address of the
  caller receives the default labels as soon as one try is made.\<close>

lemma retry_some:
  "\<exists>err' res' st'. retry cl (Some a) i err res st = Inr (err', res', st')
     \<and> maps st' = (if i < tries then (maps st)(a := with_defaults (DefaultLabels cl) (maps st a))
                   else maps st)"
proof (induction cl "Some a" i err res st rule: retry.induct)
  case (1 cl i err res st)
  show ?case
  proof (cases "i < tries")
    case False
    then show ?thesis by (subst retry.simps) simp
  next
    case True
    from updateRuntimeObject_some[of cl a res st] obtain e1 res1 st1 where
      u: "updateRuntimeObject cl (Some a) res st = Inr (e1, res1, st1)" and
      m: "maps st1 = (maps st)(a := with_defaults (DefaultLabels cl) (maps st a))"
      by blast
    show ?thesis
    proof (cases e1)
      case None
      with True u m show ?thesis by (subst retry.simps) simp
    next
      case (Some err1)
      let ?st2 = "st1\<lparr>slept := slept st1 + 1\<rparr>"
      from "1.hyps"[OF True u[unfolded Some] refl refl] obtain err' res' st' where
        r: "retry cl (Some a) (i + 1) (Some err1) res1 ?st2 = Inr (err', res', st')" and
        m2: "maps st' = (if i + 1 < tries
                 then (maps ?st2)(a := with_defaults (DefaultLabels cl) (maps ?st2 a))
                 else maps ?st2)"
        by blast
      have "maps st' = (maps st)(a := with_defaults (DefaultLabels cl) (maps st a))"
        using m m2 by (simp add: with_defaults_idem)
      with True u Some r show ?thesis by (subst retry.simps) simp
    qed
  qed
qed

lemma label_results_some:
  "\<exists>rs st'. label_results cl (Some a) results st = Inr (rs, st')
     \<and> maps st' = (if results = [] then maps st
                   else (maps st)(a := with_defaults (DefaultLabels cl) (maps st a)))"
proof (induction results arbitrary: st)
  case Nil
  then show ?case by simp
next
  case (Cons res results)
  from retry_some[of cl a 0 None res st] obtain err res1 st1 where
    r: "retry cl (Some a) 0 None res st = Inr (err, res1, st1)" and
    m: "maps st1 = (maps st)(a := with_defaults (DefaultLabels cl) (maps st a))"
    by (auto simp: tries_def)
  let ?st2 = "(case err of
                 Some e \<Rightarrow> st1\<lparr>lb_logged := lb_logged st1 @
                            [(Warn, ''error adding label to runtime object: '' @ Error e)]\<rparr>
               | None \<Rightarrow> st1)"
  have m2: "maps ?st2 = maps st1" by (cases err) simp_all
  from Cons.IH[of ?st2] obtain rs st3 where
    l: "label_results cl (Some a) results ?st2 = Inr (rs, st3)" and
    m3: "maps st3 = (if results = [] then maps ?st2
                   else (maps ?st2)(a := with_defaults (DefaultLabels cl) (maps ?st2 a)))"
    by blast
  have "maps st3 = (maps st)(a := with_defaults (DefaultLabels cl) (maps st a))"
    using m m2 m3 by (simp add: with_defaults_idem)
  with r l show ?case by (simp add: Let_def fun_upd_def)
qed


text \<open>
  C10, as amended. The labeler writes the map of the caller itself, at the address that the
  caller passed: when it obtains a client and has at least one deploy result, that map is after
  the call the caller's map overridden by the default labels, so that it has grown by the
  default keys it did not hold; when it obtains no client or has no result, the map is left as
  it was. No other map of the store changes. Each call of \<^verbatim>\<open>updateRuntimeObject\<close> writes the
  default labels into that map before it labels the object, and the object receives the labels
  of the map so extended.
\<close>

theorem labeler_writes_callers_map:
  "(\<exists>rs st'. ApplyLabelDeployResults cl (Some a) results st = Inr (rs, st')
      \<and> (Client cl = None \<and> results \<noteq> [] \<longrightarrow>
            maps st' a = with_defaults (DefaultLabels cl) (maps st a)
            \<and> dom (maps st' a) = dom (maps st a) \<union> fst ` set (DefaultLabels cl)
            \<and> (distinct (map fst (DefaultLabels cl)) \<longrightarrow>
                 (\<forall>(k, v)\<in>set (DefaultLabels cl). maps st' a k = Some v)))
      \<and> (Client cl \<noteq> None \<or> results = [] \<longrightarrow> maps st' a = maps st a)
      \<and> (\<forall>b. b \<noteq> a \<longrightarrow> maps st' b = maps st b))
   \<and> (\<forall>res s. \<exists>err res' s'. updateRuntimeObject cl (Some a) res s = Inr (err, res', s')
          \<and> maps s' = (maps s)(a := with_defaults (DefaultLabels cl) (maps s a))
          \<and> (Kind (Obj res) \<noteq> other_Object \<longrightarrow>
               Labels (Meta (Obj res')) =
                 Some ((case Labels (Meta (Obj res)) of None \<Rightarrow> Map.empty | Some ls \<Rightarrow> ls)
                       ++ with_defaults (DefaultLabels cl) (maps s a))))"
proof -
  have 6: "\<forall>res s. \<exists>err res' s'. updateRuntimeObject cl (Some a) res s = Inr (err, res', s')
          \<and> maps s' = (maps s)(a := with_defaults (DefaultLabels cl) (maps s a))
          \<and> (Kind (Obj res) \<noteq> other_Object \<longrightarrow>
               Labels (Meta (Obj res')) =
                 Some ((case Labels (Meta (Obj res)) of None \<Rightarrow> Map.empty | Some ls \<Rightarrow> ls)
                       ++ with_defaults (DefaultLabels cl) (maps s a)))"
    using updateRuntimeObject_some by blast
  have "\<exists>rs st'. ApplyLabelDeployResults cl (Some a) results st = Inr (rs, st')
      \<and> maps st' = (if Client cl = None \<and> results \<noteq> []
                    then (maps st)(a := with_defaults (DefaultLabels cl) (maps st a))
                    else maps st)"
  proof (cases "Client cl")
    case (Some err)
    then show ?thesis by (simp add: ApplyLabelDeployResults_def)
  next
    case None
    from label_results_some[of cl a results st] obtain rs st' where
      "label_results cl (Some a) results st = Inr (rs, st')" and
      "maps st' = (if results = [] then maps st
                   else (maps st)(a := with_defaults (DefaultLabels cl) (maps st a)))"
      by blast
    with None show ?thesis by (simp add: ApplyLabelDeployResults_def)
  qed
  then obtain rs st' where
    1: "ApplyLabelDeployResults cl (Some a) results st = Inr (rs, st')" and
    m: "maps st' = (if Client cl = None \<and> results \<noteq> []
                    then (maps st)(a := with_defaults (DefaultLabels cl) (maps st a))
                    else maps st)"
    by blast
  have 2: "Client cl = None \<and> results \<noteq> [] \<longrightarrow>
            maps st' a = with_defaults (DefaultLabels cl) (maps st a)
            \<and> dom (maps st' a) = dom (maps st a) \<union> fst ` set (DefaultLabels cl)
            \<and> (distinct (map fst (DefaultLabels cl)) \<longrightarrow>
                 (\<forall>(k, v)\<in>set (DefaultLabels cl). maps st' a k = Some v))"
  proof
    assume h: "Client cl = None \<and> results \<noteq> []"
    with m have e: "maps st' a = with_defaults (DefaultLabels cl) (maps st a)" by simp
    have d: "dom (maps st' a) = dom (maps st a) \<union> fst ` set (DefaultLabels cl)"
      using e by (simp add: dom_with_defaults)
    have "distinct (map fst (DefaultLabels cl)) \<longrightarrow>
                 (\<forall>(k, v)\<in>set (DefaultLabels cl). maps st' a k = Some v)"
    proof (intro impI ballI)
      fix x assume d: "distinct (map fst (DefaultLabels cl))" and x: "x \<in> set (DefaultLabels cl)"
      obtain k v where kv: "x = (k, v)" by (cases x)
      from with_defaults_holds[OF d x[unfolded kv], of "maps st a"] e kv
      show "case x of (k, v) \<Rightarrow> maps st' a k = Some v" by simp
    qed
    with e d show "maps st' a = with_defaults (DefaultLabels cl) (maps st a)
            \<and> dom (maps st' a) = dom (maps st a) \<union> fst ` set (DefaultLabels cl)
            \<and> (distinct (map fst (DefaultLabels cl)) \<longrightarrow>
                 (\<forall>(k, v)\<in>set (DefaultLabels cl). maps st' a k = Some v))"
      by (intro conjI)
  qed
  have 3: "Client cl \<noteq> None \<or> results = [] \<longrightarrow> maps st' a = maps st a"
    using m by auto
  have 4: "\<forall>b. b \<noteq> a \<longrightarrow> maps st' b = maps st b" using m by simp
  have "\<exists>rs st'. ApplyLabelDeployResults cl (Some a) results st = Inr (rs, st')
      \<and> (Client cl = None \<and> results \<noteq> [] \<longrightarrow>
            maps st' a = with_defaults (DefaultLabels cl) (maps st a)
            \<and> dom (maps st' a) = dom (maps st a) \<union> fst ` set (DefaultLabels cl)
            \<and> (distinct (map fst (DefaultLabels cl)) \<longrightarrow>
                 (\<forall>(k, v)\<in>set (DefaultLabels cl). maps st' a k = Some v)))
      \<and> (Client cl \<noteq> None \<or> results = [] \<longrightarrow> maps st' a = maps st a)
      \<and> (\<forall>b. b \<noteq> a \<longrightarrow> maps st' b = maps st b)"
    using 1 2 3 4 by (intro exI conjI)
  then show ?thesis using 6 by (rule conjI)
qed

lemmas label_defs = ApplyLabelDeployResults_def new_labeler_def updateRuntimeObject_def
  addSkaffoldLabels_def retrieveNamespace_def deref_def with_defaults_def tries_def Let_def

text \<open>
  Counterexample to C10 as stated. A call without deploy results leaves the map at the address
  of the caller as it was, without the default label; and a call with one pod whose caller's
  map already holds the default label leaves that map as it was: it does not grow.
\<close>

theorem labeler_no_growth_counterexample:
  "ApplyLabelDeployResults
     \<lparr>Client = None, respond = (\<lambda>n. None), DefaultLabels = [(''deployed-with'', ''skaffold'')]\<rparr>
     (Some 0) [] (new_labeler\<lparr>maps := (\<lambda>a. [''builder'' \<mapsto> ''local''])\<rparr>)
   = Inr ([], new_labeler\<lparr>maps := (\<lambda>a. [''builder'' \<mapsto> ''local''])\<rparr>)
   \<and> ApplyLabelDeployResults
     \<lparr>Client = None, respond = (\<lambda>n. None), DefaultLabels = [(''deployed-with'', ''skaffold'')]\<rparr>
     (Some 0)
     [\<lparr>Obj = \<lparr>Kind = core_v1_Pod, Meta = \<lparr>Labels = None, Namespace = []\<rparr>\<rparr>, Namespace = []\<rparr>]
     (new_labeler\<lparr>maps := (\<lambda>a. [''deployed-with'' \<mapsto> ''skaffold''])\<rparr>)
   = Inr ([\<lparr>Obj = \<lparr>Kind = core_v1_Pod,
                    Meta = \<lparr>Labels = Some [''deployed-with'' \<mapsto> ''skaffold''], Namespace = []\<rparr>\<rparr>,
            Namespace = []\<rparr>],
          new_labeler
            \<lparr>maps := (\<lambda>a. [''deployed-with'' \<mapsto> ''skaffold'']),
             client_calls := [UpdateStatus ''default''
                \<lparr>Kind = core_v1_Pod,
                 Meta = \<lparr>Labels = Some [''deployed-with'' \<mapsto> ''skaffold''], Namespace = []\<rparr>\<rparr>]\<rparr>)"
  by (simp add: ApplyLabelDeployResults_def new_labeler_def)
     (subst retry.simps, simp add: label_defs fun_upd_idem)

text \<open>Witness of C10 as amended: one pod to label; the map of the caller holds the builder's
  label before the call and the default label as well after it.\<close>

theorem labeler_writes_callers_map_witness:
  "\<exists>rs st'. ApplyLabelDeployResults
     \<lparr>Client = None, respond = (\<lambda>n. None), DefaultLabels = [(''deployed-with'', ''skaffold'')]\<rparr>
     (Some 0)
     [\<lparr>Obj = \<lparr>Kind = core_v1_Pod, Meta = \<lparr>Labels = None, Namespace = []\<rparr>\<rparr>, Namespace = []\<rparr>]
     (new_labeler\<lparr>maps := (\<lambda>a. [''builder'' \<mapsto> ''local''])\<rparr>)
   = Inr (rs, st')
   \<and> maps st' 0 = [''builder'' \<mapsto> ''local'', ''deployed-with'' \<mapsto> ''skaffold'']"
proof -
  let ?cl = "\<lparr>Client = None, respond = (\<lambda>n. None), DefaultLabels = [(''deployed-with'', ''skaffold'')]\<rparr>"
  let ?rs = "[\<lparr>Obj = \<lparr>Kind = core_v1_Pod, Meta = \<lparr>Labels = None, Namespace = []\<rparr>\<rparr>, Namespace = []\<rparr>]"
  let ?st = "new_labeler\<lparr>maps := (\<lambda>a. [''builder'' \<mapsto> ''local''])\<rparr>"
  have h: "Client ?cl = None \<and> ?rs \<noteq> []" by simp
  note t = labeler_writes_callers_map[of ?cl 0 ?rs ?st, THEN conjunct1]
  from t obtain rs where "\<exists>st'. ApplyLabelDeployResults ?cl (Some 0) ?rs ?st = Inr (rs, st')
      \<and> (Client ?cl = None \<and> ?rs \<noteq> [] \<longrightarrow>
            maps st' 0 = with_defaults (DefaultLabels ?cl) (maps ?st 0)
            \<and> dom (maps st' 0) = dom (maps ?st 0) \<union> fst ` set (DefaultLabels ?cl)
            \<and> (distinct (map fst (DefaultLabels ?cl)) \<longrightarrow>
                 (\<forall>(k, v)\<in>set (DefaultLabels ?cl). maps st' 0 k = Some v)))
      \<and> (Client ?cl \<noteq> None \<or> ?rs = [] \<longrightarrow> maps st' 0 = maps ?st 0)
      \<and> (\<forall>b. b \<noteq> 0 \<longrightarrow> maps st' b = maps ?st b)" ..
  then obtain st' where c: "ApplyLabelDeployResults ?cl (Some 0) ?rs ?st = Inr (rs, st')
      \<and> (Client ?cl = None \<and> ?rs \<noteq> [] \<longrightarrow>
            maps st' 0 = with_defaults (DefaultLabels ?cl) (maps ?st 0)
            \<and> dom (maps st' 0) = dom (maps ?st 0) \<union> fst ` set (DefaultLabels ?cl)
            \<and> (distinct (map fst (DefaultLabels ?cl)) \<longrightarrow>
                 (\<forall>(k, v)\<in>set (DefaultLabels ?cl). maps st' 0 k = Some v)))
      \<and> (Client ?cl \<noteq> None \<or> ?rs = [] \<longrightarrow> maps st' 0 = maps ?st 0)
      \<and> (\<forall>b. b \<noteq> 0 \<longrightarrow> maps st' b = maps ?st b)" ..
  from c have a: "ApplyLabelDeployResults ?cl (Some 0) ?rs ?st = Inr (rs, st')"
    by (rule conjunct1)
  from c[THEN conjunct2, THEN conjunct1, rule_format, OF h]
  have b: "maps st' 0 = with_defaults (DefaultLabels ?cl) (maps ?st 0)"
    by (rule conjunct1)
  have "maps st' 0 = [''builder'' \<mapsto> ''local'', ''deployed-with'' \<mapsto> ''skaffold'']"
    unfolding b by (simp add: with_defaults_def new_labeler_def)
  with a show ?thesis by (intro exI conjI)
qed

end
